theory Spec2Isabelle
  imports Complex_Main
begin

section \<open>JavaScript values\<close>

text \<open>
  The planner is JavaScript (\<^verbatim>\<open>script.js\<close>). Its numbers are IEEE binary64 values. A finite
  number is represented here by the rational it denotes, and the rounding that the machine
  applies to the exact result of an arithmetic operation, and to a decimal literal or a
  decimal text that binary64 cannot hold, is a parameter \<open>rnd\<close> of every function that
  computes with fractions. Literals that binary64 holds exactly (integers, \<open>0.5\<close>, \<open>1.5\<close>) are
  written as they are. The theorems below hold for every \<open>rnd\<close>, or for every \<open>rnd\<close> with
  the stated properties of round-to-nearest; with \<open>rnd = id\<close> the model computes in exact
  arithmetic. \<open>NaN\<close> is the value \<open>None\<close> of an option type; infinite values are not
  represented. Integer-valued quantities (counters, week numbers, phase lengths) are
  \<open>int\<close> or \<open>nat\<close>.
\<close>

type_synonym rounding = "rat \<Rightarrow> rat"

text \<open>\<^verbatim>\<open>Math.round\<close>: the nearest integer, a tie going up.\<close>

definition mathRound :: "rat \<Rightarrow> int" where
  "mathRound x = \<lfloor>x + 1 / 2\<rfloor>"

text \<open>
  \<^verbatim>\<open>x.toFixed(1)\<close> yields a decimal text. A text that denotes a number is represented by the
  rational it denotes. Below \<open>10^21\<close> the text is the sign and the magnitude rounded to
  tenths, a tie going to the larger magnitude; from \<open>10^21\<close> on it is the text of the number
  itself.
\<close>

definition toFixed1 :: "rat \<Rightarrow> rat" where
  "toFixed1 x =
     (if 10 ^ 21 \<le> \<bar>x\<bar> then x
      else if x < 0 then - (of_int \<lfloor>10 * (- x) + 1 / 2\<rfloor> / 10)
      else of_int \<lfloor>10 * x + 1 / 2\<rfloor> / 10)"

text \<open>
  \<^verbatim>\<open>parseFloat\<close> of a text: \<open>None\<close> is a text that is not a number (the result is \<open>NaN\<close>),
  \<open>Some q\<close> a text that denotes the decimal \<open>q\<close>; the result is the binary64 value nearest
  to \<open>q\<close>.
\<close>

definition parseFloat :: "rounding \<Rightarrow> rat option \<Rightarrow> rat option" where
  "parseFloat rnd txt = map_option rnd txt"

text \<open>
  A JavaScript string is a sequence of UTF-16 code units. \<open>str\<close> embeds an ASCII text; the
  three characters outside ASCII that the fixed texts of the planner use are named.
\<close>

type_synonym jsstring = "nat list"

definition str :: "string \<Rightarrow> jsstring" where
  "str s = map of_char s"

definition enDash :: nat where
  "enDash = 0x2013"

definition nbHyphen :: nat where
  "nbHyphen = 0x2011"

definition nbsp :: nat where
  "nbsp = 0xA0"


section \<open>The plan generator\<close>

datatype phase = Base | Build | Specific | Taper

record phases =
  baseWeeks :: int
  buildWeeks :: int
  specificWeeks :: int
  taperWeeks :: int

record weekEntry =
  week :: nat
  phase :: phase
  mileage :: "rat option"
  days :: "jsstring list"

record plan =
  weeks :: "weekEntry list"
  phases :: phases
  weeksToRace :: int

text \<open>
  The form data. \<open>raceDate\<close> is the instant the date text denotes, in milliseconds;
  \<open>runningMileage\<close> is what the text of the field denotes (\<open>None\<close>: not a number, or
  missing); \<open>trainingDays\<close> and \<open>strengthFrequency\<close> are what \<^verbatim>\<open>parseInt(_, 10)\<close> reads from
  their fields (\<open>None\<close>: \<open>NaN\<close>).
\<close>

record athleteInput =
  raceDate :: int
  raceDistance :: string
  experience :: string
  runningMileage :: "rat option"
  trainingDays :: "int option"
  strengthFrequency :: "int option"

definition msPerWeek :: int where
  "msPerWeek = 1000 * 60 * 60 * 24 * 7"

definition weeksBetween :: "rounding \<Rightarrow> int \<Rightarrow> int \<Rightarrow> int" where
  "weeksBetween rnd date1 date2 =
     max 1 \<lfloor>rnd (of_int (date2 - date1) / of_int msPerWeek)\<rfloor>"

text \<open>The phase lengths (lines 23 to 45 of \<^verbatim>\<open>generatePlan\<close>).\<close>

definition phaseLengths :: "int \<Rightarrow> phases" where
  "phaseLengths w =
     (if w < 8 then
        \<lparr>baseWeeks = 2, buildWeeks = w - 2 - 1 - 1, specificWeeks = 1, taperWeeks = 1\<rparr>
      else if w < 12 then
        \<lparr>baseWeeks = 3, buildWeeks = w - 3 - 2 - 1, specificWeeks = 2, taperWeeks = 1\<rparr>
      else if w < 20 then
        \<lparr>baseWeeks = 4, buildWeeks = w - 4 - 3 - 1, specificWeeks = 3, taperWeeks = 1\<rparr>
      else
        \<lparr>baseWeeks = 6, buildWeeks = w - 6 - 5 - 2, specificWeeks = 5, taperWeeks = 2\<rparr>)"

text \<open>The mileage progression (lines 48 to 65).\<close>

definition initialMiles :: "rounding \<Rightarrow> athleteInput \<Rightarrow> rat" where
  "initialMiles rnd d =
     max 0 (case parseFloat rnd (runningMileage d) of
              None \<Rightarrow> 0
            | Some x \<Rightarrow> if x = 0 then 0 else x)"

definition peakMultiplier :: "rounding \<Rightarrow> athleteInput \<Rightarrow> rat" where
  "peakMultiplier rnd d =
     (if raceDistance d = ''5k'' then 3 / 2
      else if raceDistance d = ''10k'' then rnd (18 / 10)
      else if raceDistance d = ''21k'' then rnd (22 / 10)
      else 3)"

definition targetPeak :: "rounding \<Rightarrow> athleteInput \<Rightarrow> rat" where
  "targetPeak rnd d = max (rnd (initialMiles rnd d * peakMultiplier rnd d)) 10"

definition inc :: "rounding \<Rightarrow> athleteInput \<Rightarrow> rat" where
  "inc rnd d =
     (if experience d = ''beginner'' then rnd (8 / 100)
      else if experience d = ''intermediate'' then rnd (10 / 100)
      else rnd (12 / 100))"

function weeklyMilesLoop ::
  "rounding \<Rightarrow> rat \<Rightarrow> rat \<Rightarrow> nat \<Rightarrow> nat \<Rightarrow> rat \<Rightarrow> rat list" where
  "weeklyMilesLoop rnd peak step n i currentMiles =
     (if i < n then
        currentMiles #
        weeklyMilesLoop rnd peak step n (i + 1)
          (min peak (rnd (currentMiles * rnd (1 + step))))
      else [])"
  by pat_completeness auto
termination
  by (relation "measure (\<lambda>(rnd, peak, step, n, i, currentMiles). n - i)") auto

declare weeklyMilesLoop.simps [simp del]

definition weeklyMiles :: "rounding \<Rightarrow> athleteInput \<Rightarrow> nat \<Rightarrow> rat list" where
  "weeklyMiles rnd d n =
     weeklyMilesLoop rnd (targetPeak rnd d) (inc rnd d) n 0 (initialMiles rnd d)"

text \<open>The fixed texts of the day descriptions (lines 68 to 95, 134 and 136).\<close>

definition generateRunDesc :: "bool \<Rightarrow> phase \<Rightarrow> jsstring" where
  "generateRunDesc isHard ph =
     (if \<not> isHard then
        str ''Easy run '' @ enDash # str '' stay at conversational pace (RPE'' @ nbsp #
        str ''3'' @ enDash # str ''4).''
      else if ph = Base then
        str ''Tempo run '' @ enDash # str '' moderate pace (RPE'' @ nbsp # str ''5'' @
        enDash # str ''6).''
      else if ph = Build then
        str ''Interval or hill session '' @ enDash # str '' short bursts at RPE'' @ nbsp #
        str ''6'' @ enDash # str ''7 with recovery jogs.''
      else if ph = Specific then
        str ''Race'' @ nbHyphen # str ''specific run '' @ enDash #
        str '' include carries or obstacles and maintain RPE'' @ nbsp # str ''5'' @ enDash #
        str ''7.''
      else
        str ''Short sharpening run '' @ enDash # str '' brief bursts at RPE'' @ nbsp #
        str ''6, mostly easy.'')"

definition generateStrengthDesc :: "phase \<Rightarrow> jsstring" where
  "generateStrengthDesc ph =
     (if ph = Base then
        str ''General strength circuit '' @ enDash # str '' squats, push'' @ nbHyphen #
        str ''ups, lunges, core exercises.''
      else if ph = Build then
        str ''Full'' @ nbHyphen # str ''body strength with added grip work '' @ enDash #
        str '' deadlifts, pull'' @ nbHyphen # str ''ups, presses.''
      else if ph = Specific then
        str ''Obstacle strength & carries '' @ enDash #
        str '' rope climbs, sandbag/bucket carries, rig practice.''
      else
        str ''Light strength & mobility '' @ enDash #
        str '' keep muscles activated but prioritise recovery.'')"

definition activeRecoveryDesc :: jsstring where
  "activeRecoveryDesc =
     str ''Active recovery/mobility '' @ enDash # str '' gentle stretching or yoga.''"

definition restDayDesc :: jsstring where
  "restDayDesc = str ''Rest day.''"

text \<open>The sessions of a week (lines 98, 99 and 111 to 118).\<close>

definition trainingDaysNum :: "athleteInput \<Rightarrow> int" where
  "trainingDaysNum d =
     (case trainingDays d of None \<Rightarrow> 3 | Some n \<Rightarrow> if n = 0 then 3 else n)"

definition strengthFreq :: "athleteInput \<Rightarrow> int" where
  "strengthFreq d =
     (case strengthFrequency d of None \<Rightarrow> 1 | Some n \<Rightarrow> if n = 0 then 1 else n)"

definition runDays :: "rounding \<Rightarrow> int \<Rightarrow> int" where
  "runDays rnd td = max 1 (mathRound (rnd (of_int td * rnd (6 / 10))))"

definition strengthDays :: "rounding \<Rightarrow> int \<Rightarrow> int \<Rightarrow> int" where
  "strengthDays rnd td sf = min sf (td - runDays rnd td)"

definition hardRuns :: "int \<Rightarrow> int" where
  "hardRuns td = (if 4 \<le> td then 1 else 0)"

text \<open>
  The loop over the days \<open>d = 0, ..., 6\<close> of a week (lines 121 to 138), with its three
  counters; the array \<^verbatim>\<open>days\<close> it fills is the list it returns.
\<close>

function fillDays ::
  "phase \<Rightarrow> int \<Rightarrow> int \<Rightarrow> int \<Rightarrow> int \<Rightarrow> nat \<Rightarrow> int \<Rightarrow> int \<Rightarrow> int \<Rightarrow> jsstring list" where
  "fillDays ph td rd sd hr d runCount strengthCount hardRunUsed =
     (if d < 7 then
        (if runCount < rd then
           (let isHard = hardRunUsed < hr \<and> rd - runCount \<le> hr - hardRunUsed + (7 - int d)
            in generateRunDesc isHard ph #
               fillDays ph td rd sd hr (d + 1) (runCount + 1) strengthCount
                 (if isHard then hardRunUsed + 1 else hardRunUsed))
         else if strengthCount < sd then
           generateStrengthDesc ph #
           fillDays ph td rd sd hr (d + 1) runCount (strengthCount + 1) hardRunUsed
         else if int d < td then
           activeRecoveryDesc #
           fillDays ph td rd sd hr (d + 1) runCount strengthCount hardRunUsed
         else
           restDayDesc #
           fillDays ph td rd sd hr (d + 1) runCount strengthCount hardRunUsed)
      else [])"
  by pat_completeness auto
termination
  by (relation "measure (\<lambda>(ph, td, rd, sd, hr, d, rc, sc, hu). 7 - d)") auto

declare fillDays.simps [simp del]

definition weekDays :: "rounding \<Rightarrow> phase \<Rightarrow> int \<Rightarrow> int \<Rightarrow> jsstring list" where
  "weekDays rnd ph td sf =
     fillDays ph td (runDays rnd td) (strengthDays rnd td sf) (hardRuns td) 0 0 0 0"

definition phaseOf :: "phases \<Rightarrow> nat \<Rightarrow> phase" where
  "phaseOf p w =
     (if int w < baseWeeks p then Base
      else if int w < baseWeeks p + buildWeeks p then Build
      else if int w < baseWeeks p + buildWeeks p + specificWeeks p then Specific
      else Taper)"

text \<open>
  \<^verbatim>\<open>generatePlan(data)\<close>, with the clock reading \<^verbatim>\<open>new Date()\<close> of its first line as
  the argument \<open>today\<close> (milliseconds).
\<close>

definition generatePlan :: "rounding \<Rightarrow> int \<Rightarrow> athleteInput \<Rightarrow> plan" where
  "generatePlan rnd today d =
     (let w = weeksBetween rnd today (raceDate d);
          p = phaseLengths w;
          miles = weeklyMiles rnd d (nat w)
      in \<lparr>weeks =
            map (\<lambda>i. \<lparr>week = i + 1,
                       phase = phaseOf p i,
                       mileage = Some (toFixed1 (miles ! i)),
                       days = weekDays rnd (phaseOf p i) (trainingDaysNum d) (strengthFreq d)\<rparr>)
              [0..<nat w],
          phases = p,
          weeksToRace = w\<rparr>)"


section \<open>The adaptive rescheduler\<close>

text \<open>
  An instant is a number of milliseconds since the epoch, as the value of a \<^verbatim>\<open>Date\<close> is;
  the local time zone is taken to be UTC without daylight saving, so that a calendar day
  is \<open>msPerDay\<close> long. Day 0 of the epoch was a Thursday. The text \<^verbatim>\<open>YYYY-MM-DD\<close> that
  \<^verbatim>\<open>toIso\<close> builds for a day is represented by the number of the day.
\<close>

definition msPerDay :: int where
  "msPerDay = 1000 * 60 * 60 * 24"

definition getDay :: "int \<Rightarrow> int" where
  "getDay t = (t div msPerDay + 4) mod 7"

definition addDays :: "int \<Rightarrow> int \<Rightarrow> int" where
  "addDays t k = t + k * msPerDay"

definition toIso :: "int \<Rightarrow> int" where
  "toIso t = t div msPerDay"

text \<open>
  A log entry, as \<^verbatim>\<open>tracker.js\<close> stores it. The rescheduler reads two of its fields: the
  date (\<open>None\<close>: an empty or missing text, which is falsy) and the exertion (what the text
  denotes; \<open>None\<close>: not a number).
\<close>

record logEntry =
  date :: "int option"
  rpe :: "rat option"

definition diffToMon :: "int \<Rightarrow> int" where
  "diffToMon dow = (if dow = 1 then 0 else if dow = 0 then 1 else 8 - dow)"

definition startDate :: "int \<Rightarrow> int" where
  "startDate today = addDays today (diffToMon (getDay today))"

definition endDate :: "int \<Rightarrow> plan \<Rightarrow> int" where
  "endDate today p = addDays (startDate today) (int (length (weeks p)) * 7)"

text \<open>The object \<^verbatim>\<open>logMap\<close> (lines 313 to 318): a later entry of a date replaces an earlier one.\<close>

definition logMap :: "logEntry list \<Rightarrow> (int \<rightharpoonup> logEntry)" where
  "logMap logs =
     fold (\<lambda>entry m. case date entry of None \<Rightarrow> m | Some k \<Rightarrow> m(k \<mapsto> entry)) logs Map.empty"

record stats =
  lastLoggedWeekIndex :: int
  completedSessions :: nat
  totalDaysPassed :: nat
  totalRPE :: rat

definition initialStats :: stats where
  "initialStats =
     \<lparr>lastLoggedWeekIndex = - 1, completedSessions = 0, totalDaysPassed = 0, totalRPE = 0\<rparr>"

text \<open>The body of the loop over the elapsed days (lines 322 to 334), for the day \<open>d\<close> at offset \<open>i\<close>.\<close>

definition countDay :: "rounding \<Rightarrow> (int \<rightharpoonup> logEntry) \<Rightarrow> int \<Rightarrow> nat \<Rightarrow> stats \<Rightarrow> stats" where
  "countDay rnd lm d i s =
     (let weekIndex = int (i div 7);
          s1 = (case lm (toIso d) of
                  None \<Rightarrow> s
                | Some entry \<Rightarrow>
                    (let s2 = s\<lparr>completedSessions := completedSessions s + 1\<rparr>;
                         s3 = (case parseFloat rnd (rpe entry) of
                                 None \<Rightarrow> s2
                               | Some rpeNum \<Rightarrow> s2\<lparr>totalRPE := rnd (totalRPE s2 + rpeNum)\<rparr>)
                     in if lastLoggedWeekIndex s3 < weekIndex
                        then s3\<lparr>lastLoggedWeekIndex := weekIndex\<rparr> else s3))
      in s1\<lparr>totalDaysPassed := totalDaysPassed s1 + 1\<rparr>)"

text \<open>The loop of line 321: \<open>d\<close> runs from the start date, a day at a time, while it is neither
  after \<open>now\<close> nor at the end date.\<close>

function scanDays ::
  "rounding \<Rightarrow> (int \<rightharpoonup> logEntry) \<Rightarrow> int \<Rightarrow> int \<Rightarrow> int \<Rightarrow> nat \<Rightarrow> stats \<Rightarrow> stats" where
  "scanDays rnd lm start now fin i s =
     (if addDays start (int i) \<le> now \<and> addDays start (int i) < fin then
        scanDays rnd lm start now fin (i + 1) (countDay rnd lm (addDays start (int i)) i s)
      else s)"
  by pat_completeness auto
termination
  by (relation "measure (\<lambda>(rnd, lm, start, now, fin, i, s). nat (fin - addDays start (int i)))")
    (auto simp add: addDays_def msPerDay_def)

declare scanDays.simps [simp del]

definition planStats :: "rounding \<Rightarrow> int \<Rightarrow> int \<Rightarrow> logEntry list \<Rightarrow> plan \<Rightarrow> stats" where
  "planStats rnd today now logs p =
     scanDays rnd (logMap logs) (startDate today) now (endDate today p) 0 initialStats"

datatype mode = ModeNone | Lighten | Intensify

definition completionRatio :: "rounding \<Rightarrow> stats \<Rightarrow> rat" where
  "completionRatio rnd s = rnd (of_nat (completedSessions s) / of_nat (totalDaysPassed s))"

definition avgRPE :: "rounding \<Rightarrow> stats \<Rightarrow> rat" where
  "avgRPE rnd s = rnd (totalRPE s / of_nat (completedSessions s))"

text \<open>The choice of the mode (lines 342 to 347).\<close>

definition adaptMode :: "rounding \<Rightarrow> stats \<Rightarrow> mode" where
  "adaptMode rnd s =
     (if completionRatio rnd s < 1 / 2 \<or> 6 \<le> avgRPE rnd s then Lighten
      else if rnd (8 / 10) \<le> completionRatio rnd s \<and> avgRPE rnd s \<le> 4 then Intensify
      else ModeNone)"

text \<open>
  The two regular expressions are alternatives of literal texts, matched anywhere in the
  description and without regard to case. Without the flag \<^verbatim>\<open>u\<close> two code units match
  when their upper cases are the same code unit, and a code unit outside ASCII is never
  given an upper case inside ASCII. The texts of the alternatives consist of ASCII
  letters, the space and U+2011, which is the upper case of itself only. So a code unit
  of a description matches one of an alternative exactly when they are equal after the
  ASCII letters are folded.
\<close>

definition canonicalize :: "nat \<Rightarrow> nat" where
  "canonicalize c = (if 97 \<le> c \<and> c \<le> 122 then c - 32 else c)"

fun startsWith :: "jsstring \<Rightarrow> jsstring \<Rightarrow> bool" where
  "startsWith [] s = True"
| "startsWith (p # ps) [] = False"
| "startsWith (p # ps) (c # cs) = (p = c \<and> startsWith ps cs)"

fun occursIn :: "jsstring \<Rightarrow> jsstring \<Rightarrow> bool" where
  "occursIn p [] = (p = [])"
| "occursIn p (c # cs) = (startsWith p (c # cs) \<or> occursIn p cs)"

definition regexTest :: "jsstring list \<Rightarrow> jsstring \<Rightarrow> bool" where
  "regexTest alternatives desc =
     list_ex (\<lambda>p. occursIn (map canonicalize p) (map canonicalize desc)) alternatives"

definition lightenPattern :: "jsstring list" where
  "lightenPattern =
     [str ''Interval'', str ''Tempo'', str ''race'' @ nbHyphen # str ''specific'', str ''short'']"

definition intensifyPattern :: "jsstring list" where
  "intensifyPattern =
     [str ''Easy run'', str ''Active recovery'', str ''Rest day'', str ''mobility'']"

definition softenedDesc :: jsstring where
  "softenedDesc =
     str ''Active recovery/mobility '' @ enDash # str '' gentle stretching or yoga.''"

definition intensifiedDesc :: jsstring where
  "intensifiedDesc =
     str ''Interval or hill session '' @ enDash # str '' short bursts at RPE'' @ nbsp #
     str ''6'' @ enDash # str ''7 with recovery jogs.''"

text \<open>The loop over the days of a week (lines 360 to 376), with its flag \<^verbatim>\<open>modified\<close>.\<close>

fun adaptDays :: "mode \<Rightarrow> bool \<Rightarrow> jsstring list \<Rightarrow> jsstring list" where
  "adaptDays m modified [] = []"
| "adaptDays m modified (desc # rest) =
     (if m = Lighten then
        (if regexTest lightenPattern desc \<and> \<not> modified
         then softenedDesc # adaptDays m True rest
         else desc # adaptDays m modified rest)
      else if m = Intensify then
        (if regexTest intensifyPattern desc \<and> \<not> modified
         then intensifiedDesc # adaptDays m True rest
         else desc # adaptDays m modified rest)
      else desc # adaptDays m modified rest)"

definition factor :: "rounding \<Rightarrow> mode \<Rightarrow> rat" where
  "factor rnd m = (if m = Lighten then rnd (9 / 10) else rnd (11 / 10))"

text \<open>The body of the loop over the weeks, for a week after the last logged one (lines 352 to 376).\<close>

definition adaptWeek :: "rounding \<Rightarrow> mode \<Rightarrow> weekEntry \<Rightarrow> weekEntry" where
  "adaptWeek rnd m weekObj =
     weekObj
       \<lparr>mileage :=
          (case parseFloat rnd (mileage weekObj) of
             None \<Rightarrow> mileage weekObj
           | Some mileageNum \<Rightarrow> Some (toFixed1 (rnd (mileageNum * factor rnd m)))),
        days := adaptDays m False (days weekObj)\<rparr>"

fun adaptWeeks :: "rounding \<Rightarrow> mode \<Rightarrow> int \<Rightarrow> nat \<Rightarrow> weekEntry list \<Rightarrow> weekEntry list" where
  "adaptWeeks rnd m lastLogged w [] = []"
| "adaptWeeks rnd m lastLogged w (weekObj # rest) =
     (if lastLogged < int w then adaptWeek rnd m weekObj else weekObj) #
     adaptWeeks rnd m lastLogged (w + 1) rest"

text \<open>
  \<^verbatim>\<open>adaptPlan(plan)\<close>. The function changes the plan it is given; the model returns the
  plan after the call. Its two clock readings are the arguments \<open>today\<close> (line 279) and
  \<open>now\<close> (line 320), the stored logs the argument \<open>logs\<close>. The plan of the model is always
  present, so the guard of line 277 has no counterpart.
\<close>

definition adaptPlan :: "rounding \<Rightarrow> int \<Rightarrow> int \<Rightarrow> logEntry list \<Rightarrow> plan \<Rightarrow> plan" where
  "adaptPlan rnd today now logs p =
     (let s = planStats rnd today now logs p in
      if totalDaysPassed s = 0 \<or> completedSessions s = 0 then p
      else
        (let m = adaptMode rnd s in
         if m = ModeNone then p
         else p\<lparr>weeks := adaptWeeks rnd m (lastLoggedWeekIndex s) 0 (weeks p)\<rparr>))"


text \<open>
  The elapsed window of the loop of line 321: the day at offset \<open>i\<close> from the start date is
  counted when it is neither after \<open>now\<close> nor at or after the end date.
\<close>

definition elapsed :: "int \<Rightarrow> int \<Rightarrow> plan \<Rightarrow> nat \<Rightarrow> bool" where
  "elapsed today now p i \<longleftrightarrow>
     addDays (startDate today) (int i) \<le> now \<and>
     addDays (startDate today) (int i) < endDate today p"

text \<open>The log store has an entry for the day \<open>k\<close>.\<close>

definition loggedOn :: "logEntry list \<Rightarrow> int \<Rightarrow> bool" where
  "loggedOn logs k \<longleftrightarrow> (\<exists>entry \<in> set logs. date entry = Some k)"





section \<open>The calendar exporter\<close>

text \<open>\<^verbatim>\<open>indexOf\<close> for a text of one code unit: the first index, or \<open>-1\<close>.\<close>

fun indexOf :: "jsstring \<Rightarrow> nat \<Rightarrow> int" where
  "indexOf [] c = - 1"
| "indexOf (x # xs) c =
     (if x = c then 0 else (let r = indexOf xs c in if r < 0 then - 1 else r + 1))"

text \<open>\<^verbatim>\<open>substring(0, n)\<close> for \<open>n\<close> that is not negative.\<close>

definition substring0 :: "jsstring \<Rightarrow> int \<Rightarrow> jsstring" where
  "substring0 s n = take (nat n) s"

text \<open>The white space and line terminators that \<^verbatim>\<open>trim\<close> removes from both ends.\<close>

definition isWhiteSpace :: "nat \<Rightarrow> bool" where
  "isWhiteSpace c \<longleftrightarrow>
     c \<in> {0x9, 0xA, 0xB, 0xC, 0xD, 0x20, 0xA0, 0x1680, 0x2028, 0x2029, 0x202F, 0x205F,
          0x3000, 0xFEFF} \<or> (0x2000 \<le> c \<and> c \<le> 0x200A)"

definition trim :: "jsstring \<Rightarrow> jsstring" where
  "trim s = rev (dropWhile isWhiteSpace (rev (dropWhile isWhiteSpace s)))"

text \<open>The summary of the event of a day (lines 453 to 461 of \<^verbatim>\<open>downloadCalendar\<close>).\<close>

definition summary :: "jsstring \<Rightarrow> jsstring" where
  "summary desc =
     (let dashIdx = indexOf desc enDash;
          s = (if - 1 < dashIdx then trim (substring0 desc dashIdx) else desc)
      in if s = [] then desc else s)"


text \<open>
  The wording of the specification for the summary, for comparison with \<open>summary\<close>: the
  text preceding the first dash, which is the whole text when there is no dash. The dash
  that line 454 looks for is U+2013.
\<close>

definition textBeforeDash :: "jsstring \<Rightarrow> jsstring" where
  "textBeforeDash desc = takeWhile (\<lambda>c. c \<noteq> enDash) desc"


section \<open>Properties of roundings and example inputs\<close>

text \<open>
  Round-to-nearest is monotone and leaves a value that binary64 holds as it is (so
  rounding twice is rounding once, and 0, 1 and 10 are not changed); on the numbers
  between one half and five its relative error is \<open>2^-53\<close>, far below the hundredth that
  the second property asks for.
\<close>

definition nearestRounding :: "rounding \<Rightarrow> bool" where
  "nearestRounding rnd \<longleftrightarrow>
     (\<forall>x y. x \<le> y \<longrightarrow> rnd x \<le> rnd y) \<and> (\<forall>x. rnd (rnd x) = rnd x) \<and>
     rnd 0 = 0 \<and> rnd 1 = 1 \<and> rnd 10 = 10"

definition accurateRounding :: "rounding \<Rightarrow> bool" where
  "accurateRounding rnd \<longleftrightarrow> (\<forall>x. 1 / 2 \<le> x \<and> x \<le> 5 \<longrightarrow> \<bar>rnd x - x\<bar> \<le> x / 100)"

text \<open>The scenario of the specification: ten weeks to a 10k race, an intermediate athlete.\<close>

definition scenarioInput :: athleteInput where
  "scenarioInput =
     \<lparr>raceDate = 10 * msPerWeek, raceDistance = ''10k'', experience = ''intermediate'',
      runningMileage = Some 10, trainingDays = Some 4, strengthFrequency = Some 1\<rparr>"

text \<open>The same athlete with 7.31 miles a week and a 5k race.\<close>

definition peakInput :: athleteInput where
  "peakInput = scenarioInput\<lparr>raceDistance := ''5k'', runningMileage := Some (731 / 100)\<rparr>"

text \<open>Monday 2 November 2026, 09:00, and the Tuesday after it.\<close>

definition aMonday :: int where
  "aMonday = 20759 * msPerDay + 9 * 60 * 60 * 1000"

definition aTuesday :: int where
  "aTuesday = 20760 * msPerDay + 9 * 60 * 60 * 1000"

text \<open>
  A plan of two weeks, generated on that Monday for an athlete with three training days,
  and log stores with one entry, for the Monday or for the Tuesday.
\<close>

definition exampleInput :: athleteInput where
  "exampleInput =
     \<lparr>raceDate = aMonday + 2 * msPerWeek, raceDistance = ''10k'',
      experience = ''intermediate'', runningMileage = Some 10, trainingDays = Some 3,
      strengthFrequency = Some 1\<rparr>"

definition examplePlan :: plan where
  "examplePlan = generatePlan id aMonday exampleInput"

definition mondayLog :: "rat \<Rightarrow> logEntry list" where
  "mondayLog r = [\<lparr>date = Some 20759, rpe = Some r\<rparr>]"

definition tuesdayLog :: "rat \<Rightarrow> logEntry list" where
  "tuesdayLog r = [\<lparr>date = Some 20760, rpe = Some r\<rparr>]"


section \<open>Phase lengths\<close>

text \<open>
  C3. For every number of weeks to the race, in particular for every one that is at least
  1, the four phase counts sum exactly to it, and the build count is the number of weeks
  minus the other three counts, with no clamping: it is zero at 4 weeks and negative below.
  The plan that the generator returns carries these counts.
\<close>

theorem phase_counts_sum:
  "baseWeeks (phaseLengths w) + buildWeeks (phaseLengths w) +
     specificWeeks (phaseLengths w) + taperWeeks (phaseLengths w) = w
   \<and> buildWeeks (phaseLengths w) =
       w - baseWeeks (phaseLengths w) - specificWeeks (phaseLengths w) -
         taperWeeks (phaseLengths w)
   \<and> (buildWeeks (phaseLengths w) < 0 \<longleftrightarrow> w < 4)
   \<and> (buildWeeks (phaseLengths w) = 0 \<longleftrightarrow> w = 4)
   \<and> phases (generatePlan rnd today d) = phaseLengths (weeksToRace (generatePlan rnd today d))
   \<and> 1 \<le> weeksToRace (generatePlan rnd today d)"
  by (simp add: phaseLengths_def generatePlan_def Let_def weeksBetween_def)


section \<open>The mileage progression\<close>

lemma floor_rat_numeral_div [simp]:
  "\<lfloor>numeral a / numeral b :: rat\<rfloor> = numeral a div numeral b"
  using floor_divide_of_int_eq [of "numeral a" "numeral b", where ?'a = rat] by simp

lemma floor_rat_neg_numeral_div [simp]:
  "\<lfloor>- (numeral a / numeral b) :: rat\<rfloor> = - numeral a div numeral b"
  using floor_divide_of_int_eq [of "- numeral a" "numeral b", where ?'a = rat] by simp


lemma weeklyMilesLoop_length: "length (weeklyMilesLoop rnd peak step n i c) = n - i"
proof (induction rnd peak step n i c rule: weeklyMilesLoop.induct)
  case (1 rnd peak step n i c)
  show ?case
  proof (cases "i < n")
    case True
    with 1 show ?thesis by (subst weeklyMilesLoop.simps) simp
  next
    case False
    then show ?thesis by (subst weeklyMilesLoop.simps) simp
  qed
qed

lemma weeklyMilesLoop_bounds:
  "(\<And>x y. x \<le> y \<Longrightarrow> rnd x \<le> rnd y) \<Longrightarrow> (\<And>x. rnd (rnd x) = rnd x) \<Longrightarrow>
   rnd peak = peak \<Longrightarrow> 1 \<le> rnd (1 + step) \<Longrightarrow> 0 \<le> c \<Longrightarrow> c \<le> peak \<Longrightarrow> rnd c = c \<Longrightarrow>
    sorted (weeklyMilesLoop rnd peak step n i c) \<and>
    (\<forall>m \<in> set (weeklyMilesLoop rnd peak step n i c). c \<le> m \<and> m \<le> peak)"
proof (induction rnd peak step n i c rule: weeklyMilesLoop.induct)
  case (1 rnd peak step n i c)
  note mono = "1.prems"(1) and idem = "1.prems"(2) and peak = "1.prems"(3)
    and k = "1.prems"(4) and c0 = "1.prems"(5) and cp = "1.prems"(6) and crep = "1.prems"(7)
  show ?case
  proof (cases "i < n")
    case False
    then show ?thesis by (subst (1 2) weeklyMilesLoop.simps) simp
  next
    case True
    let ?c' = "min peak (rnd (c * rnd (1 + step)))"
    have "c * 1 \<le> c * rnd (1 + step)"
      using k c0 by (rule mult_left_mono)
    then have "c \<le> c * rnd (1 + step)" by simp
    then have "rnd c \<le> rnd (c * rnd (1 + step))" by (rule mono)
    then have le: "c \<le> ?c'" using crep cp by simp
    have rep: "rnd ?c' = ?c'"
      by (cases "peak \<le> rnd (c * rnd (1 + step))") (simp_all add: min_def peak idem)
    have "0 \<le> ?c'" using le c0 by linarith
    then have IH: "sorted (weeklyMilesLoop rnd peak step n (i + 1) ?c') \<and>
      (\<forall>m \<in> set (weeklyMilesLoop rnd peak step n (i + 1) ?c'). ?c' \<le> m \<and> m \<le> peak)"
      using le cp by (intro "1.IH" [OF True mono idem peak k _ _ rep]) simp_all
    have unfold: "weeklyMilesLoop rnd peak step n i c =
        c # weeklyMilesLoop rnd peak step n (i + 1) ?c'"
      using True by (subst weeklyMilesLoop.simps) simp
    show ?thesis
      unfolding unfold using IH le cp by fastforce
  qed
qed


lemma weeklyMiles_length: "length (weeklyMiles rnd d n) = n"
  by (simp add: weeklyMiles_def weeklyMilesLoop_length)

lemma peakMultiplier_ge_1: "nearestRounding rnd \<Longrightarrow> 1 \<le> peakMultiplier rnd d"
proof -
  assume r: "nearestRounding rnd"
  then have mono: "\<And>x y. x \<le> y \<Longrightarrow> rnd x \<le> rnd y" and one: "rnd 1 = 1"
    by (simp_all add: nearestRounding_def)
  have "rnd 1 \<le> rnd (18 / 10)" "rnd 1 \<le> rnd (22 / 10)" by (rule mono, simp)+
  then show ?thesis by (simp add: peakMultiplier_def one)
qed

lemma inc_factor_ge_1: "nearestRounding rnd \<Longrightarrow> 1 \<le> rnd (1 + inc rnd d)"
proof -
  assume r: "nearestRounding rnd"
  then have mono: "\<And>x y. x \<le> y \<Longrightarrow> rnd x \<le> rnd y" and one: "rnd 1 = 1" and zero: "rnd 0 = 0"
    by (simp_all add: nearestRounding_def)
  have "rnd 0 \<le> rnd (8 / 100)" "rnd 0 \<le> rnd (10 / 100)" "rnd 0 \<le> rnd (12 / 100)"
    by (rule mono, simp)+
  then have "0 \<le> inc rnd d" by (simp add: inc_def zero)
  then have "rnd 1 \<le> rnd (1 + inc rnd d)" by (intro mono) simp
  then show ?thesis by (simp add: one)
qed

lemma initialMiles_representable:
  "nearestRounding rnd \<Longrightarrow> 0 \<le> initialMiles rnd d \<and> rnd (initialMiles rnd d) = initialMiles rnd d"
  by (auto simp add: nearestRounding_def initialMiles_def parseFloat_def max_def
      split: option.splits)

lemma initialMiles_le_targetPeak:
  "nearestRounding rnd \<Longrightarrow> initialMiles rnd d \<le> targetPeak rnd d"
proof -
  assume r: "nearestRounding rnd"
  then have mono: "\<And>x y. x \<le> y \<Longrightarrow> rnd x \<le> rnd y" by (simp add: nearestRounding_def)
  have i: "0 \<le> initialMiles rnd d" and rep: "rnd (initialMiles rnd d) = initialMiles rnd d"
    using initialMiles_representable [OF r] by simp_all
  have "initialMiles rnd d * 1 \<le> initialMiles rnd d * peakMultiplier rnd d"
    using peakMultiplier_ge_1 [OF r] i by (rule mult_left_mono)
  then have "initialMiles rnd d \<le> initialMiles rnd d * peakMultiplier rnd d" by simp
  then have "rnd (initialMiles rnd d) \<le> rnd (initialMiles rnd d * peakMultiplier rnd d)"
    by (rule mono)
  then show ?thesis by (simp add: targetPeak_def rep)
qed

lemma targetPeak_representable: "nearestRounding rnd \<Longrightarrow> rnd (targetPeak rnd d) = targetPeak rnd d"
  by (simp add: nearestRounding_def targetPeak_def max_def)

lemma generatePlan_mileage:
  "map mileage (weeks (generatePlan rnd today d)) =
   map (\<lambda>m. Some (toFixed1 m)) (weeklyMiles rnd d (nat (weeksToRace (generatePlan rnd today d))))"
proof -
  let ?n = "nat (weeksBetween rnd today (raceDate d))"
  have "map (\<lambda>i. Some (toFixed1 (weeklyMiles rnd d ?n ! i))) [0..<length (weeklyMiles rnd d ?n)] =
        map (\<lambda>m. Some (toFixed1 m)) (weeklyMiles rnd d ?n)"
    by (rule nth_equalityI) simp_all
  then show ?thesis
    by (simp add: generatePlan_def Let_def weeklyMiles_length comp_def)
qed

lemma weeklyMiles_bounds:
  assumes "nearestRounding rnd"
  shows "sorted (weeklyMiles rnd d n)"
    and "\<forall>m \<in> set (weeklyMiles rnd d n). initialMiles rnd d \<le> m \<and> m \<le> targetPeak rnd d"
proof -
  have mono: "\<And>x y. x \<le> y \<Longrightarrow> rnd x \<le> rnd y" and idem: "\<And>x. rnd (rnd x) = rnd x"
    using assms by (simp_all add: nearestRounding_def)
  have b: "sorted (weeklyMiles rnd d n) \<and>
      (\<forall>m \<in> set (weeklyMiles rnd d n). initialMiles rnd d \<le> m \<and> m \<le> targetPeak rnd d)"
    unfolding weeklyMiles_def
    using initialMiles_representable [OF assms]
    by (intro weeklyMilesLoop_bounds mono idem targetPeak_representable [OF assms]
        inc_factor_ge_1 [OF assms] initialMiles_le_targetPeak [OF assms]) simp_all
  show "sorted (weeklyMiles rnd d n)" using b by simp
  show "\<forall>m \<in> set (weeklyMiles rnd d n). initialMiles rnd d \<le> m \<and> m \<le> targetPeak rnd d"
    using b by simp
qed

text \<open>
  The values that the plan records are the values of the progression after \<^verbatim>\<open>toFixed(1)\<close>,
  which is monotone on the numbers that are not negative.
\<close>

lemma toFixed1_nonneg:
  "0 \<le> x \<Longrightarrow>
   toFixed1 x = (if 10 ^ 21 \<le> x then x else of_int \<lfloor>10 * x + 1 / 2\<rfloor> / 10)"
  by (simp add: toFixed1_def)

lemma toFixed1_mono:
  assumes "0 \<le> x" and "x \<le> y"
  shows "toFixed1 x \<le> toFixed1 y"
proof -
  have y0: "0 \<le> y" using assms by simp
  have fl: "(of_int \<lfloor>10 * x + 1 / 2\<rfloor> :: rat) \<le> of_int \<lfloor>10 * y + 1 / 2\<rfloor>"
    using assms(2) by (simp only: of_int_le_iff) (intro floor_mono, simp)
  show ?thesis
  proof (cases "10 ^ 21 \<le> y")
    case False
    then have "\<not> 10 ^ 21 \<le> x" using assms(2) by simp
    then show ?thesis
      using False fl by (simp add: toFixed1_nonneg [OF assms(1)] toFixed1_nonneg [OF y0])
  next
    case big: True
    show ?thesis
    proof (cases "10 ^ 21 \<le> x")
      case True
      then show ?thesis
        using big assms(2) by (simp add: toFixed1_nonneg [OF assms(1)] toFixed1_nonneg [OF y0])
    next
      case False
      then have "10 * x + 1 / 2 < of_int (10 ^ 22 + 1)" by simp
      then have "\<lfloor>10 * x + 1 / 2\<rfloor> < 10 ^ 22 + 1" by (simp only: floor_less_iff)
      then have "\<lfloor>10 * x + 1 / 2\<rfloor> \<le> 10 ^ 22" by simp
      then have "(of_int \<lfloor>10 * x + 1 / 2\<rfloor> :: rat) \<le> of_int (10 ^ 22)"
        by (simp only: of_int_le_iff)
      then have "(of_int \<lfloor>10 * x + 1 / 2\<rfloor> :: rat) / 10 \<le> 10 ^ 21" by simp
      then have "(of_int \<lfloor>10 * x + 1 / 2\<rfloor> :: rat) / 10 \<le> y" using big by (rule order_trans)
      then show ?thesis
        using False big by (simp only: toFixed1_nonneg [OF assms(1)] toFixed1_nonneg [OF y0] if_True if_False)
    qed
  qed
qed

lemma sorted_map_toFixed1:
  "sorted xs \<Longrightarrow> (\<forall>x \<in> set xs. 0 \<le> x) \<Longrightarrow> sorted (map toFixed1 xs)"
  by (induction xs) (auto simp add: toFixed1_mono)

lemma recorded_mileage:
  assumes "nearestRounding rnd"
  shows "sorted (map toFixed1 (weeklyMiles rnd d n))"
    and "\<forall>m \<in> set (weeklyMiles rnd d n). toFixed1 m \<le> toFixed1 (targetPeak rnd d)"
proof -
  note b = weeklyMiles_bounds [OF assms, of d n]
  have nn: "\<forall>m \<in> set (weeklyMiles rnd d n). 0 \<le> m"
    using b(2) initialMiles_representable [OF assms, of d] by fastforce
  show "sorted (map toFixed1 (weeklyMiles rnd d n))"
    using b(1) nn by (intro sorted_map_toFixed1) simp_all
  show "\<forall>m \<in> set (weeklyMiles rnd d n). toFixed1 m \<le> toFixed1 (targetPeak rnd d)"
    using b(2) nn by (auto intro: toFixed1_mono)
qed

lemma recorded_peak:
  "(if targetPeak rnd d < 10 ^ 21
    then \<bar>toFixed1 (targetPeak rnd d) - targetPeak rnd d\<bar> \<le> 1 / 20
    else toFixed1 (targetPeak rnd d) = targetPeak rnd d)"
proof -
  have p: "0 \<le> targetPeak rnd d" by (simp add: targetPeak_def)
  have f: "of_int \<lfloor>y + 1 / 2\<rfloor> \<le> y + 1 / 2 \<and> y - 1 / 2 < of_int \<lfloor>y + 1 / 2\<rfloor>" for y :: rat
    by linarith
  show ?thesis
  proof (cases "targetPeak rnd d < 10 ^ 21")
    case True
    then have t: "toFixed1 (targetPeak rnd d) = of_int \<lfloor>10 * targetPeak rnd d + 1 / 2\<rfloor> / 10"
      by (simp add: toFixed1_nonneg [OF p])
    have "\<bar>toFixed1 (targetPeak rnd d) - targetPeak rnd d\<bar> \<le> 1 / 20"
      using f [of "10 * targetPeak rnd d"] unfolding t by linarith
    then show ?thesis using True by simp
  next
    case False
    then show ?thesis by (simp add: toFixed1_nonneg [OF p])
  qed
qed

lemma peakInput_miles:
  "weeklyMiles id peakInput 10 =
     [731 / 100, 8041 / 1000, 88451 / 10000, 972961 / 100000, 10702571 / 1000000,
      10965 / 1000, 10965 / 1000, 10965 / 1000, 10965 / 1000, 10965 / 1000]"
  by (simp add: weeklyMiles_def peakInput_def scenarioInput_def targetPeak_def initialMiles_def
      parseFloat_def peakMultiplier_def inc_def weeklyMilesLoop.simps)

lemma peakInput_weeks: "weeksToRace (generatePlan id 0 peakInput) = 10"
  by (simp add: generatePlan_def Let_def weeksBetween_def peakInput_def scenarioInput_def
      msPerWeek_def)

text \<open>
  C2, as stated, fails. With 7.31 miles a week, a 5k race ten weeks away and an
  intermediate athlete the bound \<open>max (7.31 * 1.5) 10\<close> is 10.965. The progression reaches
  it in the sixth week and the plan records that week, and the four after it, as 11.0,
  which exceeds the bound.
\<close>

theorem recorded_mileage_exceeds_peak:
  "max (id (initialMiles id peakInput * peakMultiplier id peakInput)) 10 = 10965 / 1000
   \<and> map mileage (weeks (generatePlan id 0 peakInput)) =
       map Some [73 / 10, 8, 88 / 10, 97 / 10, 107 / 10, 11, 11, 11, 11, 11]
   \<and> mileage (weeks (generatePlan id 0 peakInput) ! 5) = Some 11
   \<and> max (id (initialMiles id peakInput * peakMultiplier id peakInput)) 10 < 11"
proof -
  have p: "max (id (initialMiles id peakInput * peakMultiplier id peakInput)) 10 = 10965 / 1000"
    by (simp add: peakInput_def scenarioInput_def initialMiles_def parseFloat_def
        peakMultiplier_def)
  have m: "map mileage (weeks (generatePlan id 0 peakInput)) =
       map Some [73 / 10, 8, 88 / 10, 97 / 10, 107 / 10, 11, 11, 11, 11, 11]"
    by (simp only: generatePlan_mileage peakInput_weeks) (simp add: peakInput_miles toFixed1_def)
  have l: "5 < length (weeks (generatePlan id 0 peakInput))"
    using peakInput_weeks by (simp add: generatePlan_def Let_def)
  have "map mileage (weeks (generatePlan id 0 peakInput)) ! 5 = Some 11"
    by (simp only: m) simp
  then have w: "mileage (weeks (generatePlan id 0 peakInput) ! 5) = Some 11"
    using l by simp
  have lt: "max (id (initialMiles id peakInput * peakMultiplier id peakInput)) 10 < 11"
    unfolding p by simp
  show ?thesis using p m w lt by blast
qed

text \<open>
  C2, amended. For every input, the progression \<^verbatim>\<open>weeklyMiles\<close> run for \<open>n\<close> weeks has
  exactly \<open>n\<close> values, is non-decreasing, and none of its values exceeds the target peak
  \<open>max (initial mileage * multiplier) 10\<close>, the multiplier being 1.5, 1.8, 2.2 and 3.0 for
  5k, 10k, 21k and every other distance. The generator runs it for \<open>weeksToRace\<close> weeks and
  produces, week by week, its values recorded to one decimal by \<^verbatim>\<open>toFixed(1)\<close>. The
  recorded values are non-decreasing as well, and none exceeds the target peak recorded to
  one decimal, which is within one twentieth of the target peak (and is the target peak
  from \<open>10^21\<close> on). This holds for every rounding that is monotone and keeps the values
  binary64 holds.
\<close>

theorem weekly_mileage_sequence:
  assumes "nearestRounding rnd"
  shows "length (weeklyMiles rnd d n) = n
    \<and> sorted (weeklyMiles rnd d n)
    \<and> (\<forall>m \<in> set (weeklyMiles rnd d n).
          m \<le> max (rnd (initialMiles rnd d * peakMultiplier rnd d)) 10)
    \<and> peakMultiplier rnd d =
        (if raceDistance d = ''5k'' then 15 / 10
         else if raceDistance d = ''10k'' then rnd (18 / 10)
         else if raceDistance d = ''21k'' then rnd (22 / 10)
         else 30 / 10)
    \<and> length (weeks (generatePlan rnd today d)) = nat (weeksToRace (generatePlan rnd today d))
    \<and> map mileage (weeks (generatePlan rnd today d)) =
        map (\<lambda>m. Some (toFixed1 m))
          (weeklyMiles rnd d (nat (weeksToRace (generatePlan rnd today d))))
    \<and> sorted (map toFixed1 (weeklyMiles rnd d n))
    \<and> (\<forall>m \<in> set (weeklyMiles rnd d n).
          toFixed1 m \<le> toFixed1 (max (rnd (initialMiles rnd d * peakMultiplier rnd d)) 10))
    \<and> (if max (rnd (initialMiles rnd d * peakMultiplier rnd d)) 10 < 10 ^ 21
        then \<bar>toFixed1 (max (rnd (initialMiles rnd d * peakMultiplier rnd d)) 10) -
               max (rnd (initialMiles rnd d * peakMultiplier rnd d)) 10\<bar> \<le> 1 / 20
        else toFixed1 (max (rnd (initialMiles rnd d * peakMultiplier rnd d)) 10) =
               max (rnd (initialMiles rnd d * peakMultiplier rnd d)) 10)"
proof -
  have p: "peakMultiplier rnd d =
        (if raceDistance d = ''5k'' then 15 / 10
         else if raceDistance d = ''10k'' then rnd (18 / 10)
         else if raceDistance d = ''21k'' then rnd (22 / 10)
         else 30 / 10)"
    by (simp add: peakMultiplier_def)
  have l: "length (weeks (generatePlan rnd today d)) = nat (weeksToRace (generatePlan rnd today d))"
    by (simp add: generatePlan_def Let_def)
  have b1: "sorted (weeklyMiles rnd d n)"
    by (rule weeklyMiles_bounds(1) [OF assms])
  have b2: "\<forall>m \<in> set (weeklyMiles rnd d n).
          m \<le> max (rnd (initialMiles rnd d * peakMultiplier rnd d)) 10"
    using weeklyMiles_bounds(2) [OF assms, of d n] by (simp add: targetPeak_def)
  have r1: "sorted (map toFixed1 (weeklyMiles rnd d n))"
    by (rule recorded_mileage(1) [OF assms])
  have r2: "\<forall>m \<in> set (weeklyMiles rnd d n).
          toFixed1 m \<le> toFixed1 (max (rnd (initialMiles rnd d * peakMultiplier rnd d)) 10)"
    using recorded_mileage(2) [OF assms, of d n] by (simp only: targetPeak_def)
  have r3: "(if max (rnd (initialMiles rnd d * peakMultiplier rnd d)) 10 < 10 ^ 21
        then \<bar>toFixed1 (max (rnd (initialMiles rnd d * peakMultiplier rnd d)) 10) -
               max (rnd (initialMiles rnd d * peakMultiplier rnd d)) 10\<bar> \<le> 1 / 20
        else toFixed1 (max (rnd (initialMiles rnd d * peakMultiplier rnd d)) 10) =
               max (rnd (initialMiles rnd d * peakMultiplier rnd d)) 10)"
    using recorded_peak [of rnd d] by (simp only: targetPeak_def)
  show ?thesis
    using weeklyMiles_length [of rnd d n] b1 b2 p l generatePlan_mileage [of rnd today d] r1 r2 r3
    by (intro conjI)
qed

lemma scenario_miles: "weeklyMiles id scenarioInput 10 =
       [10, 11, 121 / 10, 1331 / 100, 14641 / 1000, 161051 / 10000, 1771561 / 100000,
        18, 18, 18]"
  by (simp add: weeklyMiles_def scenarioInput_def targetPeak_def initialMiles_def
        parseFloat_def peakMultiplier_def inc_def weeklyMilesLoop.simps)

text \<open>
  The scenario of the specification, in exact arithmetic: the progression starts at 10,
  grows by a tenth a week and stays at the peak 18 from the eighth week on; the recorded
  values are the same to one decimal. And the input of 7.31 miles: the recorded values
  stay at or below 11.0, the peak 10.965 recorded to one decimal.
\<close>

theorem weekly_mileage_sequence_witness:
  "nearestRounding id
   \<and> weeklyMiles id scenarioInput 10 =
       [10, 11, 121 / 10, 1331 / 100, 14641 / 1000, 161051 / 10000, 1771561 / 100000,
        18, 18, 18]
   \<and> length (weeklyMiles id scenarioInput 10) = 10
   \<and> sorted (weeklyMiles id scenarioInput 10)
   \<and> list_all (\<lambda>m. m \<le> 18) (weeklyMiles id scenarioInput 10)
   \<and> map mileage (weeks (generatePlan id 0 scenarioInput)) =
       map Some [10, 11, 121 / 10, 133 / 10, 146 / 10, 161 / 10, 177 / 10, 18, 18, 18]
   \<and> sorted (map toFixed1 (weeklyMiles id scenarioInput 10))
   \<and> list_all (\<lambda>m. toFixed1 m \<le> 18) (weeklyMiles id scenarioInput 10)
   \<and> map toFixed1 (weeklyMiles id peakInput 10) =
       [73 / 10, 8, 88 / 10, 97 / 10, 107 / 10, 11, 11, 11, 11, 11]
   \<and> sorted (map toFixed1 (weeklyMiles id peakInput 10))
   \<and> list_all (\<lambda>m. toFixed1 m \<le> 11) (weeklyMiles id peakInput 10)
   \<and> list_all (\<lambda>m. m \<le> 10965 / 1000) (weeklyMiles id peakInput 10)"
proof -
  have h: "nearestRounding id" by (simp add: nearestRounding_def)
  have w: "weeksToRace (generatePlan id 0 scenarioInput) = 10"
    by (simp add: generatePlan_def Let_def weeksBetween_def scenarioInput_def msPerWeek_def)
  have m: "max (id (initialMiles id scenarioInput * peakMultiplier id scenarioInput)) 10 = 18"
    by (simp add: scenarioInput_def initialMiles_def parseFloat_def peakMultiplier_def)
  have m': "max (id (initialMiles id peakInput * peakMultiplier id peakInput)) 10 = 10965 / 1000"
    by (simp add: peakInput_def scenarioInput_def initialMiles_def parseFloat_def
        peakMultiplier_def)
  have t: "toFixed1 18 = 18" "toFixed1 (10965 / 1000) = 11"
    by (simp_all add: toFixed1_def)
  have v: "map toFixed1 (weeklyMiles id peakInput 10) =
       [73 / 10, 8, 88 / 10, 97 / 10, 107 / 10, 11, 11, 11, 11, 11]"
    by (simp add: peakInput_miles toFixed1_def)
  note a = weekly_mileage_sequence [OF h, of scenarioInput 10 0]
  note b = weekly_mileage_sequence [OF h, of peakInput 10 0]
  from a have a': "length (weeklyMiles id scenarioInput 10) = 10
      \<and> sorted (weeklyMiles id scenarioInput 10)
      \<and> list_all (\<lambda>m. m \<le> 18) (weeklyMiles id scenarioInput 10)
      \<and> map mileage (weeks (generatePlan id 0 scenarioInput)) =
          map (\<lambda>m. Some (toFixed1 m)) (weeklyMiles id scenarioInput 10)
      \<and> sorted (map toFixed1 (weeklyMiles id scenarioInput 10))
      \<and> list_all (\<lambda>m. toFixed1 m \<le> 18) (weeklyMiles id scenarioInput 10)"
    by (simp only: m w t Ball_set) simp
  from b have b': "sorted (map toFixed1 (weeklyMiles id peakInput 10))
      \<and> list_all (\<lambda>m. toFixed1 m \<le> 11) (weeklyMiles id peakInput 10)
      \<and> list_all (\<lambda>m. m \<le> 10965 / 1000) (weeklyMiles id peakInput 10)"
    by (simp only: m' t Ball_set)
  have r: "map (\<lambda>m. Some (toFixed1 m)) (weeklyMiles id scenarioInput 10) =
       map Some [10, 11, 121 / 10, 133 / 10, 146 / 10, 161 / 10, 177 / 10, 18, 18, 18]"
    by (simp add: scenario_miles toFixed1_def)
  have am: "map mileage (weeks (generatePlan id 0 scenarioInput)) =
       map Some [10, 11, 121 / 10, 133 / 10, 146 / 10, 161 / 10, 177 / 10, 18, 18, 18]"
    using a' by (simp only: r)
  show ?thesis
    using h a' b' v scenario_miles am by blast
qed

section \<open>Coercion of the numeric inputs\<close>

lemma generatePlan_cong:
  "raceDate d = raceDate d' \<Longrightarrow> raceDistance d = raceDistance d' \<Longrightarrow>
   experience d = experience d' \<Longrightarrow> initialMiles rnd d = initialMiles rnd d' \<Longrightarrow>
   trainingDaysNum d = trainingDaysNum d' \<Longrightarrow> strengthFreq d = strengthFreq d' \<Longrightarrow>
   generatePlan rnd today d = generatePlan rnd today d'"
  by (simp add: generatePlan_def Let_def weeklyMiles_def targetPeak_def peakMultiplier_def
      inc_def)

text \<open>
  C8. A request whose mileage, training days or strength frequency is not a number (or is
  missing) is not rejected: the three values become 0, 3 and 1, and the generator returns
  the plan, of at least one week, that it returns for an input that reads 0, 3 and 1.
\<close>

theorem malformed_numeric_inputs_coerced:
  assumes "rnd 0 = 0"
  shows "initialMiles rnd (d\<lparr>runningMileage := None\<rparr>) = 0
    \<and> trainingDaysNum (d\<lparr>trainingDays := None\<rparr>) = 3
    \<and> strengthFreq (d\<lparr>strengthFrequency := None\<rparr>) = 1
    \<and> generatePlan rnd today
        (d\<lparr>runningMileage := None, trainingDays := None, strengthFrequency := None\<rparr>) =
       generatePlan rnd today
        (d\<lparr>runningMileage := Some 0, trainingDays := Some 3, strengthFrequency := Some 1\<rparr>)
    \<and> 1 \<le> length (weeks (generatePlan rnd today
        (d\<lparr>runningMileage := None, trainingDays := None, strengthFrequency := None\<rparr>)))"
proof -
  have "generatePlan rnd today
        (d\<lparr>runningMileage := None, trainingDays := None, strengthFrequency := None\<rparr>) =
       generatePlan rnd today
        (d\<lparr>runningMileage := Some 0, trainingDays := Some 3, strengthFrequency := Some 1\<rparr>)"
    using assms
    by (intro generatePlan_cong)
      (simp_all add: initialMiles_def parseFloat_def trainingDaysNum_def strengthFreq_def)
  moreover have "1 \<le> length (weeks (generatePlan rnd today
        (d\<lparr>runningMileage := None, trainingDays := None, strengthFrequency := None\<rparr>)))"
    by (simp add: generatePlan_def Let_def weeksBetween_def)
  ultimately show ?thesis
    by (simp add: initialMiles_def parseFloat_def trainingDaysNum_def strengthFreq_def)
qed

text \<open>
  The scenario with its three numeric fields unreadable.
\<close>

theorem malformed_numeric_inputs_coerced_witness:
  "id (0 :: rat) = 0
   \<and> initialMiles id (scenarioInput\<lparr>runningMileage := None\<rparr>) = 0
   \<and> trainingDaysNum (scenarioInput\<lparr>trainingDays := None\<rparr>) = 3
   \<and> strengthFreq (scenarioInput\<lparr>strengthFrequency := None\<rparr>) = 1
   \<and> generatePlan id 0
        (scenarioInput\<lparr>runningMileage := None, trainingDays := None, strengthFrequency := None\<rparr>) =
      generatePlan id 0
        (scenarioInput\<lparr>runningMileage := Some 0, trainingDays := Some 3, strengthFrequency := Some 1\<rparr>)
   \<and> length (weeks (generatePlan id 0
        (scenarioInput\<lparr>runningMileage := None, trainingDays := None, strengthFrequency := None\<rparr>))) = 10"
proof -
  have h: "id (0 :: rat) = 0" by simp
  have w: "length (weeks (generatePlan id 0
        (scenarioInput\<lparr>runningMileage := None, trainingDays := None, strengthFrequency := None\<rparr>))) = 10"
    by (simp add: generatePlan_def Let_def weeksBetween_def msPerWeek_def scenarioInput_def)
  show ?thesis
    using h w malformed_numeric_inputs_coerced [where rnd = id and d = scenarioInput and today = 0]
    by simp
qed

text \<open>
  C10. The well-formed value 0 for the training days, or for the strength frequency, gives
  exactly the plan of 3 training days, or of strength frequency 1: a parsed zero is
  coerced as a value that is not a number is.
\<close>

theorem zero_days_treated_as_default:
  "generatePlan rnd today (d\<lparr>trainingDays := Some 0\<rparr>) =
     generatePlan rnd today (d\<lparr>trainingDays := Some 3\<rparr>)
   \<and> generatePlan rnd today (d\<lparr>strengthFrequency := Some 0\<rparr>) =
     generatePlan rnd today (d\<lparr>strengthFrequency := Some 1\<rparr>)
   \<and> trainingDaysNum (d\<lparr>trainingDays := Some 0\<rparr>) = trainingDaysNum (d\<lparr>trainingDays := None\<rparr>)
   \<and> strengthFreq (d\<lparr>strengthFrequency := Some 0\<rparr>) =
     strengthFreq (d\<lparr>strengthFrequency := None\<rparr>)"
proof -
  have "generatePlan rnd today (d\<lparr>trainingDays := Some 0\<rparr>) =
     generatePlan rnd today (d\<lparr>trainingDays := Some 3\<rparr>)"
    by (intro generatePlan_cong)
      (simp_all add: initialMiles_def trainingDaysNum_def strengthFreq_def)
  moreover have "generatePlan rnd today (d\<lparr>strengthFrequency := Some 0\<rparr>) =
     generatePlan rnd today (d\<lparr>strengthFrequency := Some 1\<rparr>)"
    by (intro generatePlan_cong)
      (simp_all add: initialMiles_def trainingDaysNum_def strengthFreq_def)
  ultimately show ?thesis
    by (simp add: trainingDaysNum_def strengthFreq_def)
qed


section \<open>Placement of the hard run\<close>

lemma rounded_in_range:
  assumes "accurateRounding rnd" and "1 / 2 \<le> x" and "x \<le> 5"
  shows "99 * x / 100 \<le> rnd x \<and> rnd x \<le> 101 * x / 100"
proof -
  have "\<bar>rnd x - x\<bar> \<le> x / 100"
    using assms unfolding accurateRounding_def by blast
  then show ?thesis by linarith
qed

lemma runDays_table:
  assumes acc: "accurateRounding rnd"
  shows "runDays rnd 1 = 1" "runDays rnd 2 = 1" "runDays rnd 3 = 2" "runDays rnd 4 = 2"
    "runDays rnd 5 = 3" "runDays rnd 6 = 4" "runDays rnd 7 = 4"
proof -
  define a where "a = rnd (6 / 10)"
  have a: "594 / 1000 \<le> a" "a \<le> 606 / 1000"
    using rounded_in_range [OF acc, of "6 / 10"] by (simp_all add: a_def)
  have r: "runDays rnd td = max 1 \<lfloor>rnd (of_int td * a) + 1 / 2\<rfloor>" for td
    by (simp add: runDays_def mathRound_def a_def)
  have "\<lfloor>rnd (1 * a) + 1 / 2\<rfloor> = 1"
    using rounded_in_range [OF acc, of "1 * a"] a by (intro floor_unique) simp_all
  then show "runDays rnd 1 = 1" by (simp add: r)
  have "\<lfloor>rnd (2 * a) + 1 / 2\<rfloor> = 1"
    using rounded_in_range [OF acc, of "2 * a"] a by (intro floor_unique) simp_all
  then show "runDays rnd 2 = 1" by (simp add: r)
  have "\<lfloor>rnd (3 * a) + 1 / 2\<rfloor> = 2"
    using rounded_in_range [OF acc, of "3 * a"] a by (intro floor_unique) simp_all
  then show "runDays rnd 3 = 2" by (simp add: r)
  have "\<lfloor>rnd (4 * a) + 1 / 2\<rfloor> = 2"
    using rounded_in_range [OF acc, of "4 * a"] a by (intro floor_unique) simp_all
  then show "runDays rnd 4 = 2" by (simp add: r)
  have "\<lfloor>rnd (5 * a) + 1 / 2\<rfloor> = 3"
    using rounded_in_range [OF acc, of "5 * a"] a by (intro floor_unique) simp_all
  then show "runDays rnd 5 = 3" by (simp add: r)
  have "\<lfloor>rnd (6 * a) + 1 / 2\<rfloor> = 4"
    using rounded_in_range [OF acc, of "6 * a"] a by (intro floor_unique) simp_all
  then show "runDays rnd 6 = 4" by (simp add: r)
  have "\<lfloor>rnd (7 * a) + 1 / 2\<rfloor> = 4"
    using rounded_in_range [OF acc, of "7 * a"] a by (intro floor_unique) simp_all
  then show "runDays rnd 7 = 4" by (simp add: r)
qed

lemma runDays_bounds:
  assumes "accurateRounding rnd" "1 \<le> td" "td \<le> 7"
  shows "1 \<le> runDays rnd td \<and> runDays rnd td \<le> 4"
proof -
  from assms(2,3) have "td = 1 \<or> td = 2 \<or> td = 3 \<or> td = 4 \<or> td = 5 \<or> td = 6 \<or> td = 7"
    by arith
  then show ?thesis using runDays_table [OF assms(1)] by auto
qed

lemma hard_text_distinct:
  "generateRunDesc True ph \<noteq> generateRunDesc False ph'"
  "generateRunDesc True ph \<noteq> generateStrengthDesc ph'"
  "generateRunDesc True ph \<noteq> activeRecoveryDesc"
  "generateRunDesc True ph \<noteq> restDayDesc"
  by (cases ph; cases ph';
      simp add: generateRunDesc_def generateStrengthDesc_def activeRecoveryDesc_def
        restDayDesc_def str_def)+

lemma fillDays_length: "length (fillDays ph td rd sd hr d rc sc hu) = 7 - d"
proof (induction ph td rd sd hr d rc sc hu rule: fillDays.induct)
  case (1 ph td rd sd hr d rc sc hu)
  show ?case
  proof (cases "d < 7")
    case False
    then show ?thesis by (subst fillDays.simps) simp
  next
    case True
    with 1 show ?thesis by (subst fillDays.simps) (auto simp add: Let_def)
  qed
qed

lemma fillDays_no_hard:
  "hr \<le> hu \<Longrightarrow> generateRunDesc True ph \<notin> set (fillDays ph td rd sd hr d rc sc hu)"
proof (induction ph td rd sd hr d rc sc hu rule: fillDays.induct)
  case (1 ph td rd sd hr d rc sc hu)
  note hu = \<open>hr \<le> hu\<close>
  show ?case
  proof (cases "d < 7")
    case False
    then show ?thesis by (subst fillDays.simps) simp
  next
    case True
    show ?thesis
    proof (cases "rc < rd")
      case run: True
      have "generateRunDesc True ph \<notin> set (fillDays ph td rd sd hr (d + 1) (rc + 1) sc hu)"
        using "1.IH"(1) [OF True run refl] hu by simp
      then show ?thesis
        using True run hu by (subst fillDays.simps) (simp add: Let_def hard_text_distinct)
    next
      case norun: False
      show ?thesis
      proof (cases "sc < sd")
        case str: True
        have "generateRunDesc True ph \<notin> set (fillDays ph td rd sd hr (d + 1) rc (sc + 1) hu)"
          using "1.IH"(2) [OF True norun str] hu by simp
        then show ?thesis
          using True norun str by (subst fillDays.simps) (simp add: hard_text_distinct)
      next
        case nostr: False
        have "generateRunDesc True ph \<notin> set (fillDays ph td rd sd hr (d + 1) rc sc hu)"
          using "1.IH"(3) [OF True norun nostr] "1.IH"(4) [OF True norun nostr] hu
          by (cases "int d < td") simp_all
        then show ?thesis
          using True norun nostr by (subst fillDays.simps) (simp add: hard_text_distinct)
      qed
    qed
  qed
qed


lemma weekDays_shape:
  assumes acc: "accurateRounding rnd" and td: "1 \<le> td" "td \<le> 7"
  shows "\<exists>rest. weekDays rnd ph td sf = generateRunDesc (4 \<le> td) ph # rest \<and>
    generateRunDesc True ph \<notin> set rest"
proof -
  have rd: "1 \<le> runDays rnd td" "runDays rnd td \<le> 4"
    using runDays_bounds [OF acc td] by simp_all
  let ?rest = "fillDays ph td (runDays rnd td) (strengthDays rnd td sf) (hardRuns td) (0 + 1)
      (0 + 1) 0 (if 4 \<le> td then 0 + 1 else 0)"
  have "weekDays rnd ph td sf = generateRunDesc (4 \<le> td) ph # ?rest"
    unfolding weekDays_def using rd
    by (subst fillDays.simps) (simp add: Let_def hardRuns_def)
  moreover have "generateRunDesc True ph \<notin> set ?rest"
    by (rule fillDays_no_hard) (simp add: hardRuns_def)
  ultimately show ?thesis by blast
qed

lemma generatePlan_days:
  assumes "wk \<in> set (weeks (generatePlan rnd today d))"
  shows "days wk = weekDays rnd (phase wk) (trainingDaysNum d) (strengthFreq d)"
  using assms by (auto simp add: generatePlan_def Let_def)

text \<open>
  C7. For every input whose training days are between 1 and 7, every week of the generated
  plan has seven days, of which exactly one is a hard run when the training days are at
  least 4 and none otherwise (a hard run is a day whose text is the hard-run text of the
  week's phase); the hard run is day 0, Monday, the first run day, and the lookahead
  condition \<open>runDays - runCount \<le> (hardRuns - hardRunUsed) + (7 - d)\<close> holds there, where
  the counters and \<open>d\<close> are 0. This holds for every rounding whose relative error on the
  numbers between one half and five is at most one hundredth.
\<close>

theorem hard_run_placement:
  assumes "accurateRounding rnd" and "trainingDays d = Some td" and "1 \<le> td" and "td \<le> 7"
    and "wk \<in> set (weeks (generatePlan rnd today d))"
  shows "length (days wk) = 7
    \<and> length (filter (\<lambda>s. s = generateRunDesc True (phase wk)) (days wk)) =
        (if 4 \<le> td then 1 else 0)
    \<and> (4 \<le> td \<longrightarrow> days wk ! 0 = generateRunDesc True (phase wk))
    \<and> runDays rnd td - 0 \<le> hardRuns td - 0 + (7 - 0)"
proof -
  have n: "trainingDaysNum d = td"
    using assms(2,3) by (simp add: trainingDaysNum_def)
  have dw: "days wk = weekDays rnd (phase wk) td (strengthFreq d)"
    using generatePlan_days [OF assms(5)] n by simp
  obtain rest where rest: "days wk = generateRunDesc (4 \<le> td) (phase wk) # rest"
    "generateRunDesc True (phase wk) \<notin> set rest"
    using weekDays_shape [OF assms(1,3,4), of "phase wk" "strengthFreq d"] dw by auto
  have len: "length (days wk) = 7"
    by (simp add: dw weekDays_def fillDays_length)
  have none: "filter (\<lambda>s. s = generateRunDesc True (phase wk)) rest = []"
    using rest(2) by (auto simp add: filter_empty_conv)
  have cnt: "length (filter (\<lambda>s. s = generateRunDesc True (phase wk)) (days wk)) =
        (if 4 \<le> td then 1 else 0)"
    using none hard_text_distinct(1) [of "phase wk" "phase wk"] by (simp add: rest(1))
  have first: "4 \<le> td \<longrightarrow> days wk ! 0 = generateRunDesc True (phase wk)"
    by (simp add: rest(1))
  have look: "runDays rnd td - 0 \<le> hardRuns td - 0 + (7 - 0)"
    using runDays_bounds [OF assms(1,3,4)] by (simp add: hardRuns_def)
  show ?thesis using len cnt first look by blast
qed

lemma scenario_weeks: "weeksBetween id 0 (raceDate scenarioInput) = 10"
  by (simp add: weeksBetween_def scenarioInput_def msPerWeek_def)

lemma scenario_week1_days:
  "weekDays id Base 4 1 =
     [generateRunDesc True Base, generateRunDesc False Base, generateStrengthDesc Base,
      activeRecoveryDesc, restDayDesc, restDayDesc, restDayDesc]"
  by (simp add: weekDays_def runDays_def mathRound_def strengthDays_def hardRuns_def
      fillDays.simps Let_def)

text \<open>
  The first week of the scenario, with four training days: a tempo run on Monday, an easy
  run, a strength day, a recovery day and three rest days.
\<close>

theorem hard_run_placement_witness:
  "accurateRounding id \<and> trainingDays scenarioInput = Some 4 \<and> (1 :: int) \<le> 4 \<and> (4 :: int) \<le> 7
   \<and> weeks (generatePlan id 0 scenarioInput) ! 0 \<in> set (weeks (generatePlan id 0 scenarioInput))
   \<and> days (weeks (generatePlan id 0 scenarioInput) ! 0) =
       [generateRunDesc True Base, generateRunDesc False Base, generateStrengthDesc Base,
        activeRecoveryDesc, restDayDesc, restDayDesc, restDayDesc]
   \<and> phase (weeks (generatePlan id 0 scenarioInput) ! 0) = Base
   \<and> length (filter (\<lambda>s. s = generateRunDesc True Base)
        (days (weeks (generatePlan id 0 scenarioInput) ! 0))) = 1
   \<and> days (weeks (generatePlan id 0 scenarioInput) ! 0) ! 0 = generateRunDesc True Base"
proof -
  have h1: "accurateRounding id" by (simp add: accurateRounding_def)
  have h2: "trainingDays scenarioInput = Some 4" by (simp add: scenarioInput_def)
  have len: "length (weeks (generatePlan id 0 scenarioInput)) = 10"
    by (simp add: generatePlan_def Let_def scenario_weeks)
  have h5: "weeks (generatePlan id 0 scenarioInput) ! 0 \<in> set (weeks (generatePlan id 0 scenarioInput))"
    by (rule nth_mem) (simp add: len)
  have ph: "phase (weeks (generatePlan id 0 scenarioInput) ! 0) = Base"
    by (simp add: generatePlan_def Let_def scenario_weeks phaseOf_def phaseLengths_def)
  have dy: "days (weeks (generatePlan id 0 scenarioInput) ! 0) = weekDays id Base 4 1"
    using generatePlan_days [OF h5] ph
    by (simp add: trainingDaysNum_def strengthFreq_def scenarioInput_def)
  show ?thesis
    using h1 h2 h5 ph hard_run_placement [OF h1 h2 _ _ h5]
    by (simp add: dy scenario_week1_days)
qed


section \<open>The summary of a calendar event\<close>

lemma indexOf_absent: "c \<notin> set s \<Longrightarrow> indexOf s c = - 1"
  by (induction s) simp_all

lemma indexOf_present:
  "c \<in> set s \<Longrightarrow> indexOf s c = int (length (takeWhile (\<lambda>x. x \<noteq> c) s))"
  by (induction s) (auto simp add: Let_def)

lemma substring0_indexOf:
  "c \<in> set s \<Longrightarrow> substring0 s (indexOf s c) = takeWhile (\<lambda>x. x \<noteq> c) s"
  by (simp add: substring0_def indexOf_present takeWhile_eq_take [symmetric])

lemma summary_cases:
  "summary desc =
     (if enDash \<in> set desc \<and> trim (textBeforeDash desc) \<noteq> []
      then trim (textBeforeDash desc) else desc)"
proof (cases "enDash \<in> set desc")
  case True
  then have "- 1 < indexOf desc enDash" by (simp add: indexOf_present)
  then show ?thesis
    using True by (simp add: summary_def Let_def substring0_indexOf textBeforeDash_def)
next
  case False
  then show ?thesis by (simp add: summary_def Let_def indexOf_absent)
qed

lemma textBeforeDash_easy: "textBeforeDash (generateRunDesc False Base) = str ''Easy run ''"
  by (simp add: textBeforeDash_def generateRunDesc_def str_def enDash_def)

lemma trim_easy: "trim (str ''Easy run '') = str ''Easy run''"
  by (simp add: trim_def str_def isWhiteSpace_def)

text \<open>
  C9, as stated, fails: the summary of the easy-run text is \<open>Easy run\<close>, while the text
  preceding its first dash is \<open>Easy run\<close> followed by a space.
\<close>

theorem summary_is_not_text_before_dash:
  "summary (generateRunDesc False Base) = str ''Easy run''
   \<and> textBeforeDash (generateRunDesc False Base) = str ''Easy run ''
   \<and> summary (generateRunDesc False Base) \<noteq> textBeforeDash (generateRunDesc False Base)"
proof -
  have d: "enDash \<in> set (generateRunDesc False Base)"
    by (simp add: generateRunDesc_def)
  have s: "summary (generateRunDesc False Base) = str ''Easy run''"
    using d by (simp add: summary_cases textBeforeDash_easy trim_easy) (simp add: str_def)
  show ?thesis
    by (simp add: s textBeforeDash_easy) (simp add: str_def)
qed

lemma fixed_summaries:
  "summary (generateRunDesc False ph) = str ''Easy run''"
  "summary (generateRunDesc True Base) = str ''Tempo run''"
  "summary (generateRunDesc True Build) = str ''Interval or hill session''"
  "summary (generateRunDesc True Specific) = str ''Race'' @ nbHyphen # str ''specific run''"
  "summary (generateRunDesc True Taper) = str ''Short sharpening run''"
  "summary (generateStrengthDesc Base) = str ''General strength circuit''"
  "summary (generateStrengthDesc Build) =
     str ''Full'' @ nbHyphen # str ''body strength with added grip work''"
  "summary (generateStrengthDesc Specific) = str ''Obstacle strength & carries''"
  "summary (generateStrengthDesc Taper) = str ''Light strength & mobility''"
  "summary activeRecoveryDesc = str ''Active recovery/mobility''"
  "summary restDayDesc = str ''Rest day.''"
  by (simp_all add: summary_def Let_def substring0_def trim_def isWhiteSpace_def
      generateRunDesc_def generateStrengthDesc_def activeRecoveryDesc_def restDayDesc_def
      str_def enDash_def nbHyphen_def nbsp_def)

text \<open>
  C9, amended. The summary of a day is the text preceding the first dash (U+2013) of its
  description with the white space at both ends removed, when the description has such a
  dash and that trimmed text is not empty; otherwise it is the whole description. For the
  fixed texts of the planner it is the phrase before the dash, and \<open>Rest day.\<close> for the
  rest day.
\<close>

theorem summary_trimmed_text_before_dash:
  "summary desc =
     (if enDash \<in> set desc \<and> trim (textBeforeDash desc) \<noteq> []
      then trim (textBeforeDash desc) else desc)
   \<and> summary (generateRunDesc False ph) = str ''Easy run''
   \<and> summary (generateRunDesc True Base) = str ''Tempo run''
   \<and> summary (generateRunDesc True Build) = str ''Interval or hill session''
   \<and> summary (generateRunDesc True Specific) = str ''Race'' @ nbHyphen # str ''specific run''
   \<and> summary (generateRunDesc True Taper) = str ''Short sharpening run''
   \<and> summary (generateStrengthDesc Base) = str ''General strength circuit''
   \<and> summary (generateStrengthDesc Build) =
       str ''Full'' @ nbHyphen # str ''body strength with added grip work''
   \<and> summary (generateStrengthDesc Specific) = str ''Obstacle strength & carries''
   \<and> summary (generateStrengthDesc Taper) = str ''Light strength & mobility''
   \<and> summary activeRecoveryDesc = str ''Active recovery/mobility''
   \<and> summary restDayDesc = str ''Rest day.''"
  using summary_cases [of desc] fixed_summaries by blast


section \<open>A plan without logged days\<close>

lemma fold_logMap_None:
  "fold (\<lambda>entry m. case date entry of None \<Rightarrow> m | Some k \<Rightarrow> m(k \<mapsto> entry)) logs m0 k = None
   \<longleftrightarrow> m0 k = None \<and> \<not> loggedOn logs k"
proof (induction logs arbitrary: m0)
  case Nil
  then show ?case by (simp add: loggedOn_def)
next
  case (Cons e logs)
  show ?case
    by (cases "date e") (auto simp add: Cons.IH loggedOn_def)
qed

lemma logMap_None: "logMap logs k = None \<longleftrightarrow> \<not> loggedOn logs k"
  by (simp add: logMap_def fold_logMap_None)

lemma countDay_unlogged:
  "lm (toIso d) = None \<Longrightarrow> countDay rnd lm d i s = s\<lparr>totalDaysPassed := totalDaysPassed s + 1\<rparr>"
  by (simp add: countDay_def Let_def)

lemma scanDays_stop:
  "\<not> (addDays start (int i) \<le> now \<and> addDays start (int i) < fin) \<Longrightarrow>
   scanDays rnd lm start now fin i s = s"
  by (subst scanDays.simps) auto

lemma scanDays_step:
  "addDays start (int i) \<le> now \<and> addDays start (int i) < fin \<Longrightarrow>
   scanDays rnd lm start now fin i s =
     scanDays rnd lm start now fin (i + 1) (countDay rnd lm (addDays start (int i)) i s)"
  by (subst scanDays.simps) auto

lemma scanDays_unlogged:
  "(\<And>j. i \<le> j \<Longrightarrow> addDays start (int j) \<le> now \<and> addDays start (int j) < fin \<Longrightarrow>
      lm (toIso (addDays start (int j))) = None) \<Longrightarrow>
   completedSessions (scanDays rnd lm start now fin i s) = completedSessions s"
proof (induction rnd lm start now fin i s rule: scanDays.induct)
  case (1 rnd lm start now fin i s)
  show ?case
  proof (cases "addDays start (int i) \<le> now \<and> addDays start (int i) < fin")
    case False
    then show ?thesis by (simp add: scanDays_stop)
  next
    case True
    have here: "lm (toIso (addDays start (int i))) = None"
      using "1.prems" [of i] True by simp
    have "completedSessions (scanDays rnd lm start now fin (i + 1)
        (countDay rnd lm (addDays start (int i)) i s)) =
      completedSessions (countDay rnd lm (addDays start (int i)) i s)"
      using "1.prems" by (intro "1.IH" [OF True]) simp_all
    then show ?thesis
      using here by (simp add: scanDays_step [OF True] countDay_unlogged)
  qed
qed

lemma planStats_unlogged:
  assumes "\<And>i. elapsed today now p i \<Longrightarrow> \<not> loggedOn logs (toIso (addDays (startDate today) (int i)))"
  shows "completedSessions (planStats rnd today now logs p) = 0"
proof -
  have "completedSessions (planStats rnd today now logs p) = completedSessions initialStats"
    unfolding planStats_def
    by (rule scanDays_unlogged) (use assms in \<open>simp add: elapsed_def logMap_None\<close>)
  then show ?thesis by (simp add: initialStats_def)
qed

lemma planStats_no_day:
  assumes "\<not> elapsed today now p 0"
  shows "totalDaysPassed (planStats rnd today now logs p) = 0"
proof -
  have "\<not> (addDays (startDate today) (int 0) \<le> now \<and>
      addDays (startDate today) (int 0) < endDate today p)"
    using assms by (simp add: elapsed_def)
  then have "scanDays rnd (logMap logs) (startDate today) now (endDate today p) 0 initialStats =
      initialStats"
    by (rule scanDays_stop)
  then show ?thesis
    by (simp add: planStats_def initialStats_def)
qed

text \<open>
  C6. For every plan, log store and pair of clock readings: when the log store is empty,
  or no day of the elapsed window has a log entry, or no day has elapsed, the rescheduler
  returns the plan as it was given.
\<close>

theorem unlogged_plan_unchanged:
  assumes "logs = []
    \<or> (\<forall>i. elapsed today now p i \<longrightarrow>
          \<not> loggedOn logs (toIso (addDays (startDate today) (int i))))
    \<or> \<not> elapsed today now p 0"
  shows "adaptPlan rnd today now logs p = p"
proof -
  have "totalDaysPassed (planStats rnd today now logs p) = 0 \<or>
        completedSessions (planStats rnd today now logs p) = 0"
    using assms
  proof (elim disjE)
    assume "logs = []"
    then have "completedSessions (planStats rnd today now logs p) = 0"
      by (intro planStats_unlogged) (simp add: loggedOn_def)
    then show ?thesis by simp
  next
    assume "\<forall>i. elapsed today now p i \<longrightarrow>
          \<not> loggedOn logs (toIso (addDays (startDate today) (int i)))"
    then have "completedSessions (planStats rnd today now logs p) = 0"
      by (intro planStats_unlogged) simp
    then show ?thesis by simp
  next
    assume "\<not> elapsed today now p 0"
    then show ?thesis by (simp add: planStats_no_day)
  qed
  then show ?thesis by (auto simp add: adaptPlan_def Let_def)
qed

lemma exampleDays:
  "weekDays id Base 3 1 =
     [generateRunDesc False Base, generateRunDesc False Base, generateStrengthDesc Base,
      restDayDesc, restDayDesc, restDayDesc, restDayDesc]"
  by (simp add: weekDays_def runDays_def mathRound_def strengthDays_def hardRuns_def
      fillDays.simps Let_def)

lemma examplePlan_value:
  "examplePlan =
     \<lparr>weeks =
        [\<lparr>week = 1, phase = Base, mileage = Some 10, days = weekDays id Base 3 1\<rparr>,
         \<lparr>week = 2, phase = Base, mileage = Some 11, days = weekDays id Base 3 1\<rparr>],
      phases = \<lparr>baseWeeks = 2, buildWeeks = - 2, specificWeeks = 1, taperWeeks = 1\<rparr>,
      weeksToRace = 2\<rparr>"
proof -
  have w: "weeksBetween id aMonday (raceDate exampleInput) = 2"
    by (simp add: weeksBetween_def exampleInput_def msPerWeek_def)
  have m: "weeklyMiles id exampleInput 2 = [10, 11]"
    by (simp add: weeklyMiles_def exampleInput_def targetPeak_def initialMiles_def
        parseFloat_def peakMultiplier_def inc_def weeklyMilesLoop.simps)
  have u: "[0..<2] = [0, Suc 0]" by (simp add: upt_rec)
  show ?thesis
    by (simp add: examplePlan_def generatePlan_def Let_def w m u phaseLengths_def phaseOf_def
        toFixed1_def)
      (simp add: trainingDaysNum_def strengthFreq_def exampleInput_def)
qed

lemma monday_window:
  "startDate aMonday = aMonday" "endDate aMonday examplePlan = aMonday + 14 * msPerDay"
  "elapsed aMonday aMonday examplePlan 0" "\<not> elapsed aMonday aMonday examplePlan (Suc i)"
  "toIso aMonday = 20759"
  by (simp_all add: elapsed_def endDate_def startDate_def addDays_def getDay_def diffToMon_def
      toIso_def aMonday_def msPerDay_def examplePlan_value)

lemma tuesday_window:
  "startDate aTuesday = aTuesday + 6 * msPerDay" "\<not> elapsed aTuesday aTuesday examplePlan 0"
  by (simp_all add: elapsed_def endDate_def startDate_def addDays_def getDay_def diffToMon_def
      aTuesday_def msPerDay_def examplePlan_value)

text \<open>
  The example plan on the Monday with an empty log store, on the Monday with an entry for
  the Tuesday only, and on the Tuesday, when the start date is the Monday after.
\<close>

theorem unlogged_plan_unchanged_witness:
  "adaptPlan id aMonday aMonday [] examplePlan = examplePlan
   \<and> elapsed aMonday aMonday examplePlan 0
   \<and> adaptPlan id aMonday aMonday (tuesdayLog 2) examplePlan = examplePlan
   \<and> loggedOn (tuesdayLog 2) (toIso aTuesday)
   \<and> adaptPlan id aTuesday aTuesday (tuesdayLog 2) examplePlan = examplePlan"
proof -
  have 1: "adaptPlan id aMonday aMonday [] examplePlan = examplePlan"
    by (rule unlogged_plan_unchanged) simp
  have "elapsed aMonday aMonday examplePlan i \<longrightarrow>
      \<not> loggedOn (tuesdayLog 2) (toIso (addDays (startDate aMonday) (int i)))" for i
    by (cases i) (simp_all add: monday_window loggedOn_def tuesdayLog_def addDays_def)
  then have 2: "adaptPlan id aMonday aMonday (tuesdayLog 2) examplePlan = examplePlan"
    by (intro unlogged_plan_unchanged) blast
  have 3: "adaptPlan id aTuesday aTuesday (tuesdayLog 2) examplePlan = examplePlan"
    by (rule unlogged_plan_unchanged) (simp add: tuesday_window)
  have 4: "loggedOn (tuesdayLog 2) (toIso aTuesday)"
    by (simp add: loggedOn_def tuesdayLog_def toIso_def aTuesday_def msPerDay_def)
  show ?thesis using 1 2 3 4 monday_window(3) by blast
qed


section \<open>The choice of the mode\<close>

text \<open>
  The statistics of the scan: the number of elapsed days, and the number of elapsed days
  that have a log entry.
\<close>

lemma countDay_total: "totalDaysPassed (countDay rnd lm d i s) = totalDaysPassed s + 1"
  by (simp add: countDay_def Let_def split: option.splits)

lemma countDay_completed:
  "completedSessions (countDay rnd lm d i s) =
     completedSessions s + (if lm (toIso d) = None then 0 else 1)"
  by (simp add: countDay_def Let_def split: option.splits)

lemma window_tail:
  fixes start now fin :: int
  defines "W \<equiv> \<lambda>i. {j. i \<le> j \<and> addDays start (int j) \<le> now \<and> addDays start (int j) < fin}"
  shows "finite (W i)"
    and "\<not> (addDays start (int i) \<le> now \<and> addDays start (int i) < fin) \<Longrightarrow> W i = {}"
    and "addDays start (int i) \<le> now \<and> addDays start (int i) < fin \<Longrightarrow>
         W i = insert i (W (i + 1)) \<and> i \<notin> W (i + 1)"
proof -
  have mono: "addDays start (int i) \<le> addDays start (int j)" if "i \<le> j" for i j
    using that by (simp add: addDays_def msPerDay_def)
  have "W i \<subseteq> {j. int j < fin - start}"
    by (auto simp add: W_def addDays_def msPerDay_def)
  moreover have "finite {j. int j < fin - start}"
    by (rule finite_subset [of _ "{..< nat (fin - start)}"]) auto
  ultimately show "finite (W i)" by (rule finite_subset)
  show "W i = {}" if "\<not> (addDays start (int i) \<le> now \<and> addDays start (int i) < fin)"
    using that mono [of i] by (fastforce simp add: W_def)
  show "W i = insert i (W (i + 1)) \<and> i \<notin> W (i + 1)"
    if "addDays start (int i) \<le> now \<and> addDays start (int i) < fin"
    using that by (auto simp add: W_def le_Suc_eq)
qed


lemma scanDays_total:
  "totalDaysPassed (scanDays rnd lm start now fin i s) =
     totalDaysPassed s +
     card {j. i \<le> j \<and> addDays start (int j) \<le> now \<and> addDays start (int j) < fin}"
proof (induction rnd lm start now fin i s rule: scanDays.induct)
  case (1 rnd lm start now fin i s)
  show ?case
  proof (cases "addDays start (int i) \<le> now \<and> addDays start (int i) < fin")
    case False
    then show ?thesis
      by (simp add: scanDays_stop window_tail(2) [OF False])
  next
    case True
    note w = window_tail(3) [OF True]
      and f = window_tail(1) [where i = "i + 1" and start = start and now = now and fin = fin]
    have "card {j. i \<le> j \<and> addDays start (int j) \<le> now \<and> addDays start (int j) < fin} =
        Suc (card {j. i + 1 \<le> j \<and> addDays start (int j) \<le> now \<and> addDays start (int j) < fin})"
      using w f by (simp only: conjunct1 [OF w]) (simp add: card_insert_disjoint)
    then show ?thesis
      using "1.IH" [OF True] by (simp add: scanDays_step [OF True] countDay_total)
  qed
qed

lemma logged_tail:
  fixes start now fin :: int and lm :: "int \<rightharpoonup> logEntry"
  defines "L \<equiv> \<lambda>i. {j. i \<le> j \<and> addDays start (int j) \<le> now \<and> addDays start (int j) < fin \<and>
      lm (toIso (addDays start (int j))) \<noteq> None}"
  shows "finite (L i)"
    and "\<not> (addDays start (int i) \<le> now \<and> addDays start (int i) < fin) \<Longrightarrow> L i = {}"
    and "addDays start (int i) \<le> now \<and> addDays start (int i) < fin \<Longrightarrow>
         L i = (if lm (toIso (addDays start (int i))) = None then L (i + 1)
                else insert i (L (i + 1))) \<and> i \<notin> L (i + 1)"
proof -
  have sub: "L i \<subseteq> {j. i \<le> j \<and> addDays start (int j) \<le> now \<and> addDays start (int j) < fin}"
    by (auto simp add: L_def)
  show "finite (L i)"
    using sub window_tail(1) by (rule finite_subset)
  show "L i = {}" if "\<not> (addDays start (int i) \<le> now \<and> addDays start (int i) < fin)"
    using sub window_tail(2) [OF that] by simp
  show "L i = (if lm (toIso (addDays start (int i))) = None then L (i + 1)
                else insert i (L (i + 1))) \<and> i \<notin> L (i + 1)"
    if "addDays start (int i) \<le> now \<and> addDays start (int i) < fin"
    using that by (auto simp add: L_def Suc_le_eq le_less)
qed

lemma scanDays_completed:
  "completedSessions (scanDays rnd lm start now fin i s) =
     completedSessions s +
     card {j. i \<le> j \<and> addDays start (int j) \<le> now \<and> addDays start (int j) < fin \<and>
       lm (toIso (addDays start (int j))) \<noteq> None}"
proof (induction rnd lm start now fin i s rule: scanDays.induct)
  case (1 rnd lm start now fin i s)
  show ?case
  proof (cases "addDays start (int i) \<le> now \<and> addDays start (int i) < fin")
    case False
    show ?thesis
      by (simp only: scanDays_stop [OF False] logged_tail(2) [OF False, where lm = lm]
          card.empty add_0_right)
  next
    case True
    note l = logged_tail(3) [OF True, where lm = lm]
      and f = logged_tail(1) [where i = "i + 1" and start = start and now = now and fin = fin
        and lm = lm]
    have "card {j. i \<le> j \<and> addDays start (int j) \<le> now \<and> addDays start (int j) < fin \<and>
          lm (toIso (addDays start (int j))) \<noteq> None} =
        (if lm (toIso (addDays start (int i))) = None then 0 else 1) +
        card {j. i + 1 \<le> j \<and> addDays start (int j) \<le> now \<and> addDays start (int j) < fin \<and>
          lm (toIso (addDays start (int j))) \<noteq> None}"
      using l f by (simp only: conjunct1 [OF l]) (simp add: card_insert_disjoint)
    then show ?thesis
      by (simp only: scanDays_step [OF True] "1.IH" [OF True] countDay_completed)
  qed
qed

lemma planStats_counts:
  "totalDaysPassed (planStats rnd today now logs p) = card {i. elapsed today now p i}"
  "completedSessions (planStats rnd today now logs p) =
     card {i. elapsed today now p i \<and> loggedOn logs (toIso (addDays (startDate today) (int i)))}"
  by (simp_all add: planStats_def scanDays_total scanDays_completed initialStats_def elapsed_def
      logMap_None)

lemma monday_stats:
  "planStats id aMonday aMonday (mondayLog r) examplePlan =
     \<lparr>lastLoggedWeekIndex = 0, completedSessions = 1, totalDaysPassed = 1, totalRPE = r\<rparr>"
proof -
  have a: "addDays aMonday (int 0) \<le> aMonday \<and> addDays aMonday (int 0) < aMonday + 14 * msPerDay"
    by (simp add: addDays_def msPerDay_def)
  have b: "\<not> (addDays aMonday (int (0 + 1)) \<le> aMonday \<and>
      addDays aMonday (int (0 + 1)) < aMonday + 14 * msPerDay)"
    by (simp add: addDays_def msPerDay_def)
  have c: "countDay id (logMap (mondayLog r)) (addDays aMonday (int 0)) 0 initialStats =
     \<lparr>lastLoggedWeekIndex = 0, completedSessions = 1, totalDaysPassed = 1, totalRPE = r\<rparr>"
    by (simp add: countDay_def Let_def logMap_def mondayLog_def addDays_def monday_window(5)
        parseFloat_def initialStats_def)
  show ?thesis
    unfolding planStats_def monday_window(1,2)
    by (simp only: scanDays_step [OF a] scanDays_stop [OF b] c)
qed

text \<open>
  C4. When at least one day has elapsed and at least one elapsed day is logged, the
  rescheduler chooses the mode lighten if and only if the completion ratio is below 0.5
  or the average exertion is at least 6; otherwise it chooses intensify if and only if the
  completion ratio is at least 0.8 and the average exertion at most 4; otherwise it
  chooses no mode and returns the plan as it was given. The ratio is the number of logged
  elapsed days over the number of elapsed days, the average the sum of the exertions
  over the number of logged elapsed days.
\<close>

theorem mode_selection:
  assumes "s = planStats rnd today now logs p"
    and "0 < totalDaysPassed s" and "0 < completedSessions s"
  shows "(adaptMode rnd s = Lighten \<longleftrightarrow> completionRatio rnd s < 1 / 2 \<or> 6 \<le> avgRPE rnd s)
    \<and> (adaptMode rnd s = Intensify \<longleftrightarrow>
         \<not> (completionRatio rnd s < 1 / 2 \<or> 6 \<le> avgRPE rnd s) \<and>
         rnd (8 / 10) \<le> completionRatio rnd s \<and> avgRPE rnd s \<le> 4)
    \<and> (adaptMode rnd s = ModeNone \<longleftrightarrow>
         \<not> (completionRatio rnd s < 1 / 2 \<or> 6 \<le> avgRPE rnd s) \<and>
         \<not> (rnd (8 / 10) \<le> completionRatio rnd s \<and> avgRPE rnd s \<le> 4))
    \<and> (adaptMode rnd s = ModeNone \<longrightarrow> adaptPlan rnd today now logs p = p)
    \<and> (adaptMode rnd s \<noteq> ModeNone \<longrightarrow>
         adaptPlan rnd today now logs p =
           p\<lparr>weeks := adaptWeeks rnd (adaptMode rnd s) (lastLoggedWeekIndex s) 0 (weeks p)\<rparr>)
    \<and> completionRatio rnd s = rnd (of_nat (completedSessions s) / of_nat (totalDaysPassed s))
    \<and> avgRPE rnd s = rnd (totalRPE s / of_nat (completedSessions s))
    \<and> totalDaysPassed s = card {i. elapsed today now p i}
    \<and> completedSessions s =
        card {i. elapsed today now p i \<and>
                 loggedOn logs (toIso (addDays (startDate today) (int i)))}"
proof -
  have n: "totalDaysPassed s = card {i. elapsed today now p i}"
    "completedSessions s =
        card {i. elapsed today now p i \<and>
                 loggedOn logs (toIso (addDays (startDate today) (int i)))}"
    by (simp_all only: assms(1) planStats_counts)
  have m: "(adaptMode rnd s = Lighten \<longleftrightarrow> completionRatio rnd s < 1 / 2 \<or> 6 \<le> avgRPE rnd s)
    \<and> (adaptMode rnd s = Intensify \<longleftrightarrow>
         \<not> (completionRatio rnd s < 1 / 2 \<or> 6 \<le> avgRPE rnd s) \<and>
         rnd (8 / 10) \<le> completionRatio rnd s \<and> avgRPE rnd s \<le> 4)
    \<and> (adaptMode rnd s = ModeNone \<longleftrightarrow>
         \<not> (completionRatio rnd s < 1 / 2 \<or> 6 \<le> avgRPE rnd s) \<and>
         \<not> (rnd (8 / 10) \<le> completionRatio rnd s \<and> avgRPE rnd s \<le> 4))"
    unfolding adaptMode_def by auto
  have a: "adaptPlan rnd today now logs p =
      (if adaptMode rnd s = ModeNone then p
       else p\<lparr>weeks := adaptWeeks rnd (adaptMode rnd s) (lastLoggedWeekIndex s) 0 (weeks p)\<rparr>)"
    using assms by (simp add: adaptPlan_def Let_def)
  have c: "completionRatio rnd s = rnd (of_nat (completedSessions s) / of_nat (totalDaysPassed s))"
    "avgRPE rnd s = rnd (totalRPE s / of_nat (completedSessions s))"
    by (simp_all add: completionRatio_def avgRPE_def)
  show ?thesis using m a c n by simp
qed

text \<open>
  The example plan on the Monday, with one entry for that day: exertion 7 gives lighten,
  exertion 2 intensify, exertion 5 no mode.
\<close>

theorem mode_selection_witness:
  "0 < totalDaysPassed (planStats id aMonday aMonday (mondayLog 7) examplePlan)
   \<and> 0 < completedSessions (planStats id aMonday aMonday (mondayLog 7) examplePlan)
   \<and> completionRatio id (planStats id aMonday aMonday (mondayLog 7) examplePlan) = 1
   \<and> avgRPE id (planStats id aMonday aMonday (mondayLog 7) examplePlan) = 7
   \<and> adaptMode id (planStats id aMonday aMonday (mondayLog 7) examplePlan) = Lighten
   \<and> adaptMode id (planStats id aMonday aMonday (mondayLog 2) examplePlan) = Intensify
   \<and> adaptMode id (planStats id aMonday aMonday (mondayLog 5) examplePlan) = ModeNone
   \<and> adaptPlan id aMonday aMonday (mondayLog 5) examplePlan = examplePlan"
proof -
  have t: "0 < totalDaysPassed (planStats id aMonday aMonday (mondayLog r) examplePlan)"
    and c: "0 < completedSessions (planStats id aMonday aMonday (mondayLog r) examplePlan)" for r
    by (simp_all add: monday_stats)
  have r: "completionRatio id (planStats id aMonday aMonday (mondayLog r) examplePlan) = 1"
    and v: "avgRPE id (planStats id aMonday aMonday (mondayLog r) examplePlan) = r" for r
    by (simp_all add: monday_stats completionRatio_def avgRPE_def)
  show ?thesis
    using t [of 7] c [of 7]
      mode_selection [OF refl t [of 7] c [of 7]]
      mode_selection [OF refl t [of 2] c [of 2]]
      mode_selection [OF refl t [of 5] c [of 5]]
    by (simp add: r v)
qed


section \<open>The adapted weeks\<close>

text \<open>
  \<^verbatim>\<open>toFixed(1)\<close> rounds to one decimal: below \<open>10^21\<close> its result is a whole number of tenths
  within one twentieth of its argument.
\<close>

lemma toFixed1_one_decimal:
  assumes "\<bar>x\<bar> < 10 ^ 21"
  shows "\<exists>k :: int. toFixed1 x = of_int k / 10" and "\<bar>toFixed1 x - x\<bar> \<le> 1 / 20"
proof -
  have f: "of_int \<lfloor>y + 1 / 2\<rfloor> \<le> y + 1 / 2 \<and> y - 1 / 2 < of_int \<lfloor>y + 1 / 2\<rfloor>" for y :: rat
    by linarith
  show "\<exists>k :: int. toFixed1 x = of_int k / 10"
  proof (cases "x < 0")
    case True
    then have "toFixed1 x = of_int (- \<lfloor>10 * (- x) + 1 / 2\<rfloor>) / 10"
      using assms by (simp add: toFixed1_def)
    then show ?thesis by blast
  next
    case False
    then have "toFixed1 x = of_int \<lfloor>10 * x + 1 / 2\<rfloor> / 10"
      using assms by (simp add: toFixed1_def)
    then show ?thesis by blast
  qed
  show "\<bar>toFixed1 x - x\<bar> \<le> 1 / 20"
  proof (cases "x < 0")
    case True
    then have t: "toFixed1 x = - (of_int \<lfloor>10 * (- x) + 1 / 2\<rfloor> / 10)"
      using assms by (simp add: toFixed1_def)
    show ?thesis using f [of "10 * (- x)"] unfolding t by linarith
  next
    case False
    then have t: "toFixed1 x = of_int \<lfloor>10 * x + 1 / 2\<rfloor> / 10"
      using assms by (simp add: toFixed1_def)
    show ?thesis using f [of "10 * x"] unfolding t by linarith
  qed
qed








lemma adaptWeeks_length: "length (adaptWeeks rnd m lastLogged w ws) = length ws"
  by (induction ws arbitrary: w) simp_all


lemma adaptPlan_adapted:
  assumes "s = planStats rnd today now logs p"
    and "totalDaysPassed s \<noteq> 0" and "completedSessions s \<noteq> 0"
    and "adaptMode rnd s \<noteq> ModeNone"
  shows "adaptPlan rnd today now logs p =
    p\<lparr>weeks := adaptWeeks rnd (adaptMode rnd s) (lastLoggedWeekIndex s) 0 (weeks p)\<rparr>"
  using assms by (simp add: adaptPlan_def Let_def)



section \<open>Running the rescheduler again\<close>

lemma regex_facts:
  "regexTest intensifyPattern (generateRunDesc False Base)"
  "\<not> regexTest intensifyPattern intensifiedDesc"
  "\<not> regexTest lightenPattern (generateRunDesc False Base)"
  "\<not> regexTest lightenPattern (generateStrengthDesc Base)"
  "\<not> regexTest lightenPattern restDayDesc"
  by (simp_all add: regexTest_def intensifyPattern_def lightenPattern_def generateRunDesc_def
      generateStrengthDesc_def restDayDesc_def intensifiedDesc_def str_def canonicalize_def
      enDash_def nbHyphen_def nbsp_def)

lemma adaptPlan_length: "length (weeks (adaptPlan rnd today now logs p)) = length (weeks p)"
  by (simp add: adaptPlan_def Let_def adaptWeeks_length)

lemma planStats_adaptPlan:
  "planStats rnd today now logs (adaptPlan rnd today now logs p) = planStats rnd today now logs p"
  by (simp add: planStats_def endDate_def adaptPlan_length)

text \<open>
  C1, amended. The statistics, and with them the mode and the last logged week index, do
  not depend on the contents of the weeks, so a second run on the plan that the first run
  returned takes the decision of the first run. When the first run makes no change (no
  elapsed day, no logged elapsed day, or no mode), the second run makes none either and
  both return the plan as given. When the first run adapts the weeks after the last
  logged week, the second run adapts the adapted weeks once more.
\<close>

theorem rerun_repeats_adaptation:
  "planStats rnd today now logs (adaptPlan rnd today now logs p) = planStats rnd today now logs p
   \<and> adaptPlan rnd today now logs p =
       (if totalDaysPassed (planStats rnd today now logs p) = 0
           \<or> completedSessions (planStats rnd today now logs p) = 0
           \<or> adaptMode rnd (planStats rnd today now logs p) = ModeNone
        then p
        else p\<lparr>weeks :=
                 adaptWeeks rnd (adaptMode rnd (planStats rnd today now logs p))
                   (lastLoggedWeekIndex (planStats rnd today now logs p)) 0 (weeks p)\<rparr>)
   \<and> adaptPlan rnd today now logs (adaptPlan rnd today now logs p) =
       (if totalDaysPassed (planStats rnd today now logs p) = 0
           \<or> completedSessions (planStats rnd today now logs p) = 0
           \<or> adaptMode rnd (planStats rnd today now logs p) = ModeNone
        then adaptPlan rnd today now logs p
        else p\<lparr>weeks :=
                 adaptWeeks rnd (adaptMode rnd (planStats rnd today now logs p))
                   (lastLoggedWeekIndex (planStats rnd today now logs p)) 0
                   (adaptWeeks rnd (adaptMode rnd (planStats rnd today now logs p))
                      (lastLoggedWeekIndex (planStats rnd today now logs p)) 0 (weeks p))\<rparr>)"
proof -
  let ?s = "planStats rnd today now logs p"
  let ?q = "adaptPlan rnd today now logs p"
  have once: "?q =
       (if totalDaysPassed ?s = 0 \<or> completedSessions ?s = 0 \<or> adaptMode rnd ?s = ModeNone
        then p
        else p\<lparr>weeks := adaptWeeks rnd (adaptMode rnd ?s) (lastLoggedWeekIndex ?s) 0 (weeks p)\<rparr>)"
    by (simp add: adaptPlan_def Let_def)
  have again: "adaptPlan rnd today now logs ?q =
       (if totalDaysPassed ?s = 0 \<or> completedSessions ?s = 0 \<or> adaptMode rnd ?s = ModeNone
        then ?q
        else ?q\<lparr>weeks := adaptWeeks rnd (adaptMode rnd ?s) (lastLoggedWeekIndex ?s) 0 (weeks ?q)\<rparr>)"
    using planStats_adaptPlan [of rnd today now logs p]
    by (simp add: adaptPlan_def [of rnd today now logs ?q] Let_def)
  have twice: "adaptPlan rnd today now logs ?q =
       (if totalDaysPassed ?s = 0 \<or> completedSessions ?s = 0 \<or> adaptMode rnd ?s = ModeNone
        then ?q
        else p\<lparr>weeks :=
                 adaptWeeks rnd (adaptMode rnd ?s) (lastLoggedWeekIndex ?s) 0
                   (adaptWeeks rnd (adaptMode rnd ?s) (lastLoggedWeekIndex ?s) 0 (weeks p))\<rparr>)"
  proof (cases "totalDaysPassed ?s = 0 \<or> completedSessions ?s = 0 \<or> adaptMode rnd ?s = ModeNone")
    case True
    then show ?thesis using again by simp
  next
    case False
    then have "?q = p\<lparr>weeks := adaptWeeks rnd (adaptMode rnd ?s) (lastLoggedWeekIndex ?s) 0 (weeks p)\<rparr>"
      using once by simp
    then show ?thesis using again False by simp
  qed
  show ?thesis
    using planStats_adaptPlan [of rnd today now logs p] once twice by simp
qed

lemma example_week:
  "weeks examplePlan ! 0 = \<lparr>week = 1, phase = Base, mileage = Some 10, days = weekDays id Base 3 1\<rparr>"
  "weeks examplePlan ! 1 = \<lparr>week = 2, phase = Base, mileage = Some 11, days = weekDays id Base 3 1\<rparr>"
  "length (weeks examplePlan) = 2"
  by (simp_all add: examplePlan_value)

lemma monday_adapts:
  "totalDaysPassed (planStats id aMonday aMonday (mondayLog r) examplePlan) \<noteq> 0"
  "completedSessions (planStats id aMonday aMonday (mondayLog r) examplePlan) \<noteq> 0"
  "lastLoggedWeekIndex (planStats id aMonday aMonday (mondayLog r) examplePlan) = 0"
  "adaptMode id (planStats id aMonday aMonday (mondayLog 2) examplePlan) = Intensify"
  "adaptMode id (planStats id aMonday aMonday (mondayLog 7) examplePlan) = Lighten"
  by (simp_all add: monday_stats adaptMode_def completionRatio_def avgRPE_def)

lemma example_weeks:
  "weeks examplePlan =
     [\<lparr>week = 1, phase = Base, mileage = Some 10, days = weekDays id Base 3 1\<rparr>,
      \<lparr>week = 2, phase = Base, mileage = Some 11, days = weekDays id Base 3 1\<rparr>]"
  by (simp add: examplePlan_value)

lemma intensify_week2:
  "adaptWeek id Intensify
     \<lparr>week = 2, phase = Base, mileage = Some 11, days = weekDays id Base 3 1\<rparr> =
   \<lparr>week = 2, phase = Base, mileage = Some (121 / 10),
    days = [intensifiedDesc, generateRunDesc False Base, generateStrengthDesc Base,
            restDayDesc, restDayDesc, restDayDesc, restDayDesc]\<rparr>"
  by (simp add: adaptWeek_def parseFloat_def factor_def toFixed1_def exampleDays regex_facts)

lemma intensify_week2_again:
  "adaptWeek id Intensify
     \<lparr>week = 2, phase = Base, mileage = Some (121 / 10),
      days = [intensifiedDesc, generateRunDesc False Base, generateStrengthDesc Base,
              restDayDesc, restDayDesc, restDayDesc, restDayDesc]\<rparr> =
   \<lparr>week = 2, phase = Base, mileage = Some (133 / 10),
    days = [intensifiedDesc, intensifiedDesc, generateStrengthDesc Base,
            restDayDesc, restDayDesc, restDayDesc, restDayDesc]\<rparr>"
  by (simp add: adaptWeek_def parseFloat_def factor_def toFixed1_def regex_facts)

lemma example_intensified_once:
  "adaptPlan id aMonday aMonday (mondayLog 2) examplePlan =
     examplePlan
       \<lparr>weeks :=
          [\<lparr>week = 1, phase = Base, mileage = Some 10, days = weekDays id Base 3 1\<rparr>,
           \<lparr>week = 2, phase = Base, mileage = Some (121 / 10),
            days = [intensifiedDesc, generateRunDesc False Base, generateStrengthDesc Base,
                    restDayDesc, restDayDesc, restDayDesc, restDayDesc]\<rparr>]\<rparr>"
proof -
  have "adaptPlan id aMonday aMonday (mondayLog 2) examplePlan =
      examplePlan\<lparr>weeks := adaptWeeks id Intensify 0 0 (weeks examplePlan)\<rparr>"
    using adaptPlan_adapted [OF refl monday_adapts(1,2), of 2]
    by (simp only: monday_adapts) simp
  then show ?thesis
    by (simp add: example_weeks intensify_week2)
qed

lemma example_intensified_twice:
  "adaptPlan id aMonday aMonday (mondayLog 2)
     (adaptPlan id aMonday aMonday (mondayLog 2) examplePlan) =
     examplePlan
       \<lparr>weeks :=
          [\<lparr>week = 1, phase = Base, mileage = Some 10, days = weekDays id Base 3 1\<rparr>,
           \<lparr>week = 2, phase = Base, mileage = Some (133 / 10),
            days = [intensifiedDesc, intensifiedDesc, generateStrengthDesc Base,
                    restDayDesc, restDayDesc, restDayDesc, restDayDesc]\<rparr>]\<rparr>"
proof -
  let ?q = "adaptPlan id aMonday aMonday (mondayLog 2) examplePlan"
  have s: "planStats id aMonday aMonday (mondayLog 2) ?q =
      planStats id aMonday aMonday (mondayLog 2) examplePlan"
    by (rule planStats_adaptPlan)
  have "adaptPlan id aMonday aMonday (mondayLog 2) ?q =
      ?q\<lparr>weeks := adaptWeeks id Intensify 0 0 (weeks ?q)\<rparr>"
    using adaptPlan_adapted [of "planStats id aMonday aMonday (mondayLog 2) ?q" id aMonday aMonday
        "mondayLog 2" ?q]
    by (simp only: s monday_adapts) simp
  then show ?thesis
    by (simp add: example_intensified_once intensify_week2_again)
qed

text \<open>
  C1, as stated, fails. On Monday 2 November 2026, with one log entry for that day of
  exertion 2, the mode is intensify: one run on the example plan takes the mileage of the
  second week from 11.0 to 12.1 and replaces the easy run of its Monday; a second run
  takes the mileage to 13.3 and replaces the easy run of its Tuesday as well.
\<close>

theorem rerun_changes_plan:
  "map mileage (weeks (adaptPlan id aMonday aMonday (mondayLog 2) examplePlan)) =
     [Some 10, Some (121 / 10)]
   \<and> map mileage (weeks (adaptPlan id aMonday aMonday (mondayLog 2)
        (adaptPlan id aMonday aMonday (mondayLog 2) examplePlan))) = [Some 10, Some (133 / 10)]
   \<and> days (weeks (adaptPlan id aMonday aMonday (mondayLog 2) examplePlan) ! 1) ! 1 =
       generateRunDesc False Base
   \<and> days (weeks (adaptPlan id aMonday aMonday (mondayLog 2)
        (adaptPlan id aMonday aMonday (mondayLog 2) examplePlan)) ! 1) ! 1 = intensifiedDesc
   \<and> adaptPlan id aMonday aMonday (mondayLog 2)
        (adaptPlan id aMonday aMonday (mondayLog 2) examplePlan) \<noteq>
      adaptPlan id aMonday aMonday (mondayLog 2) examplePlan"
proof -
  let ?once = "adaptPlan id aMonday aMonday (mondayLog 2) examplePlan"
  let ?twice = "adaptPlan id aMonday aMonday (mondayLog 2) ?once"
  have 1: "map mileage (weeks ?once) = [Some 10, Some (121 / 10)]"
    by (simp add: example_intensified_once)
  have 2: "map mileage (weeks ?twice) = [Some 10, Some (133 / 10)]"
    by (simp only: example_intensified_twice) simp
  have 3: "days (weeks ?once ! 1) ! 1 = generateRunDesc False Base"
    by (simp add: example_intensified_once)
  have 4: "days (weeks ?twice ! 1) ! 1 = intensifiedDesc"
    by (simp only: example_intensified_twice) simp
  have "map mileage (weeks ?twice) \<noteq> map mileage (weeks ?once)"
    by (simp only: 1 2) simp
  then have 5: "?twice \<noteq> ?once" by auto
  show ?thesis using 1 2 3 4 5 by blast
qed




end
